theory Spec2Isabelle
  imports Main "HOL-Library.Word"
begin

unbundle bit_operations_syntax

section \<open>JavaScript values\<close>

text \<open>
  Thrown values: an \<open>Error\<close>, a \<open>TypeError\<close> or a \<open>RangeError\<close> of the run-time
  with its message, or the repository's \<open>CustomError(message, details)\<close>, whose
  \<open>details\<close> is either empty or \<open>{ cause: err }\<close>. The timestamp field of
  \<open>CustomError\<close> is wall-clock time and is left out, as is the stack of every error.
\<close>

datatype js_error =
    Error string
  | TypeError string
  | RangeError string
  | CustomError string "js_error option"

fun message :: "js_error \<Rightarrow> string" where
  "message (Error m) = m"
| "message (TypeError m) = m"
| "message (RangeError m) = m"
| "message (CustomError m c) = m"

text \<open>The \<open>name\<close> of an error: that of its class, which \<open>CustomError\<close> sets itself.\<close>

fun error_name :: "js_error \<Rightarrow> string" where
  "error_name (Error m) = ''Error''"
| "error_name (TypeError m) = ''TypeError''"
| "error_name (RangeError m) = ''RangeError''"
| "error_name (CustomError m c) = ''CustomError''"

datatype js_value =
    JUndefined
  | JNull
  | JBool bool
  | JNum int
  | JStr string
  | JErr js_error
  | JArr "js_value list"
  | JObj "(string \<times> js_value) list"

text \<open>Truthiness, as used by \<open>x ? a : b\<close>.\<close>

fun truthy :: "js_value \<Rightarrow> bool" where
  "truthy JUndefined = False"
| "truthy JNull = False"
| "truthy (JBool b) = b"
| "truthy (JNum n) = (n \<noteq> 0)"
| "truthy (JStr s) = (s \<noteq> [])"
| "truthy (JErr e) = True"
| "truthy (JArr xs) = True"
| "truthy (JObj kvs) = True"

text \<open>The \<open>details\<close> of an error: an object on a \<open>CustomError\<close>, absent otherwise.\<close>

fun details :: "js_error \<Rightarrow> js_value" where
  "details (CustomError m None) = JObj []"
| "details (CustomError m (Some c)) = JObj [(''cause'', JErr c)]"
| "details e = JUndefined"

text \<open>
  Property read \<open>v.key\<close>: a TypeError on \<open>undefined\<close> and \<open>null\<close>, the stored value
  on an object that has the key and \<open>undefined\<close> on one that has not; \<open>message\<close>,
  \<open>name\<close> and \<open>details\<close> on an error. The keys read in this program are those of
  button events and \<open>message\<close>; on the other values they are \<open>undefined\<close>.
\<close>

fun get_prop :: "js_value \<Rightarrow> string \<Rightarrow> js_error + js_value" where
  "get_prop JUndefined k =
     Inl (TypeError (''Cannot read properties of undefined (reading '' @ [CHR 0x27] @ k @ [CHR 0x27] @ '')''))"
| "get_prop JNull k =
     Inl (TypeError (''Cannot read properties of null (reading '' @ [CHR 0x27] @ k @ [CHR 0x27] @ '')''))"
| "get_prop (JObj kvs) k = Inr (case map_of kvs k of None \<Rightarrow> JUndefined | Some v \<Rightarrow> v)"
| "get_prop (JErr e) k =
     Inr (if k = ''message'' then JStr (message e)
          else if k = ''name'' then JStr (error_name e)
          else if k = ''details'' then details e
          else JUndefined)"
| "get_prop v k = Inr JUndefined"

section \<open>constants.js, config.js, event.js\<close>

record button_data =
  name :: string
  color :: string
  controller :: nat
  button :: nat
  bit_mask :: "32 word"

definition mk_button :: "string \<Rightarrow> string \<Rightarrow> nat \<Rightarrow> nat \<Rightarrow> 32 word \<Rightarrow> button_data" where
  "mk_button n c k b m = \<lparr> name = n, color = c, controller = k, button = b, bit_mask = m \<rparr>"

definition BUTTONS_DATA :: "button_data list" where
  "BUTTONS_DATA =
   [ mk_button ''C1_RED'' ''red'' 1 0 0x000001,
     mk_button ''C1_BLUE'' ''blue'' 1 1 0x000010,
     mk_button ''C1_ORANGE'' ''orange'' 1 2 0x000008,
     mk_button ''C1_GREEN'' ''green'' 1 3 0x000004,
     mk_button ''C1_YELLOW'' ''yellow'' 1 4 0x000002,
     mk_button ''C2_RED'' ''red'' 2 0 0x000020,
     mk_button ''C2_BLUE'' ''blue'' 2 1 0x000200,
     mk_button ''C2_ORANGE'' ''orange'' 2 2 0x000100,
     mk_button ''C2_GREEN'' ''green'' 2 3 0x000080,
     mk_button ''C2_YELLOW'' ''yellow'' 2 4 0x000040,
     mk_button ''C3_RED'' ''red'' 3 0 0x000400,
     mk_button ''C3_BLUE'' ''blue'' 3 1 0x004000,
     mk_button ''C3_ORANGE'' ''orange'' 3 2 0x002000,
     mk_button ''C3_GREEN'' ''green'' 3 3 0x001000,
     mk_button ''C3_YELLOW'' ''yellow'' 3 4 0x000800,
     mk_button ''C4_RED'' ''red'' 4 0 0x008000,
     mk_button ''C4_BLUE'' ''blue'' 4 1 0x080000,
     mk_button ''C4_ORANGE'' ''orange'' 4 2 0x040000,
     mk_button ''C4_GREEN'' ''green'' 4 3 0x020000,
     mk_button ''C4_YELLOW'' ''yellow'' 4 4 0x010000 ]"

definition VID :: nat where "VID = 0x054c"
definition PID :: nat where "PID = 0x1000"

datatype event_kind = PRESS | RELEASE | READY | ERROR

fun EVENTS :: "event_kind \<Rightarrow> string" where
  "EVENTS PRESS = ''press''"
| "EVENTS RELEASE = ''release''"
| "EVENTS READY = ''ready''"
| "EVENTS ERROR = ''error''"

section \<open>utils.js\<close>

text \<open>
  \<open>formatEvent(original, eventType)\<close>. The result is an object literal, modelled as
  its key/value list in source order, so that the spelling of each key is part of the
  model. Reading a property of \<open>undefined\<close> or \<open>null\<close> throws.
\<close>

definition formatEvent :: "js_value \<Rightarrow> js_value \<Rightarrow> js_error + js_value" where
  "formatEvent original eventType =
     (let isPressed = (eventType = JStr (EVENTS PRESS)) in
      case get_prop original ''controller'' of Inl e \<Rightarrow> Inl e | Inr c \<Rightarrow>
      case get_prop original ''button'' of Inl e \<Rightarrow> Inl e | Inr b \<Rightarrow>
      case get_prop original ''name'' of Inl e \<Rightarrow> Inl e | Inr n \<Rightarrow>
      case get_prop original ''color'' of Inl e \<Rightarrow> Inl e | Inr col \<Rightarrow>
        Inr (JObj [(''controller'', c), (''button'', b), (''Name'', n), (''color'', col),
                   (''pressed'', JBool isPressed),
                   (''state'', JStr (if isPressed then ''pressed'' else ''released''))]))"

section \<open>The event emitter\<close>

text \<open>
  A consumer callback is identified by a number and either returns or throws on the
  argument it is given. Callbacks are taken not to call back into the session while
  they run.
\<close>

type_synonym callback = "nat \<times> (js_value \<Rightarrow> js_error option)"

text \<open>
  The functions registered on the emitter: the wrappers built by \<open>onPress\<close>,
  \<open>onRelease\<close> and \<open>onChange\<close>, and the callback itself for \<open>onReady\<close> and
  \<open>onError\<close>.
\<close>

datatype handler =
    PressHandler callback
  | ReleaseHandler callback
  | ChangeHandler callback
  | Plain callback

type_synonym delivery = "nat \<times> js_value"

definition invoke :: "callback \<Rightarrow> js_value \<Rightarrow> delivery list \<times> js_error option" where
  "invoke cb v = ([(fst cb, v)], snd cb v)"

fun run_handler :: "handler \<Rightarrow> js_value \<Rightarrow> delivery list \<times> js_error option" where
  "run_handler (PressHandler cb) originalEvent =
     (case formatEvent originalEvent (JStr (EVENTS PRESS)) of
        Inl e \<Rightarrow> ([], Some e) | Inr v \<Rightarrow> invoke cb v)"
| "run_handler (ReleaseHandler cb) originalEvent =
     (case formatEvent originalEvent (JStr (EVENTS RELEASE)) of
        Inl e \<Rightarrow> ([], Some e) | Inr v \<Rightarrow> invoke cb v)"
| "run_handler (ChangeHandler cb) originalEvent =
     (case get_prop originalEvent ''type'' of
        Inl e \<Rightarrow> ([], Some e)
      | Inr t \<Rightarrow> (case formatEvent originalEvent t of
                   Inl e \<Rightarrow> ([], Some e) | Inr v \<Rightarrow> invoke cb v))"
| "run_handler (Plain cb) arg = invoke cb arg"

text \<open>
  \<open>EventEmitter.emit\<close> of node:events calls the listeners of the event synchronously,
  in registration order; a listener that throws ends the call, and the exception leaves
  \<open>emit\<close>. An \<open>'error'\<close> event with no listener throws: the argument itself when it
  is an Error, a fresh Error otherwise, whose message shows the argument as
  \<open>util.inspect\<close> prints it. For a string that is the string between single quotes,
  as long as it is one line of printable characters without a single quote or a
  backslash, as the messages of fixed text in this program are; the escapes and the other
  quotes that \<open>util.inspect\<close> uses on the remaining strings are not modelled.
\<close>

fun call_listeners :: "handler list \<Rightarrow> js_value \<Rightarrow> delivery list \<times> js_error option" where
  "call_listeners [] v = ([], None)"
| "call_listeners (h # hs) v =
     (case run_handler h v of
        (d, Some e) \<Rightarrow> (d, Some e)
      | (d, None) \<Rightarrow> (case call_listeners hs v of (ds, r) \<Rightarrow> (d @ ds, r)))"

fun unhandled_error :: "js_value \<Rightarrow> js_error" where
  "unhandled_error (JErr e) = e"
| "unhandled_error (JStr m) = Error (''Unhandled error. ('' @ [CHR 0x27] @ m @ [CHR 0x27] @ '')'')"
| "unhandled_error v = Error ''Unhandled error.''"

definition emit_listeners ::
  "(event_kind \<Rightarrow> handler list) \<Rightarrow> event_kind \<Rightarrow> js_value \<Rightarrow> delivery list \<times> js_error option" where
  "emit_listeners table k v =
     (if k = ERROR \<and> table k = [] then ([], Some (unhandled_error v))
      else call_listeners (table k) v)"

section \<open>The transport\<close>

text \<open>
  What the usb and node-hid packages answer: each call that can throw carries the error
  it throws, if any.
\<close>

record usb_endpoint =
  direction :: string
  transferType :: nat
  address :: nat
  wMaxPacketSize :: nat
  startPoll_error :: "js_error option"
  stopPoll_error :: "js_error option"

record usb_iface =
  endpoints :: "usb_endpoint list"
  isKernelDriverActive :: "bool option"
  detachKernelDriver_error :: "js_error option"
  claim_error :: "js_error option"
  release_error :: "js_error option"

record usb_device =
  open_error :: "js_error option"
  interface0 :: "usb_iface option"
  close_error :: "js_error option"

record hid_device =
  write_error :: "8 word list \<Rightarrow> js_error option"
  hid_close_error :: "js_error option"

record environment =
  findByIds :: "nat \<Rightarrow> nat \<Rightarrow> usb_device option"
  HID_open :: "nat \<Rightarrow> nat \<Rightarrow> js_error + hid_device"
  platform :: string

section \<open>The session\<close>

datatype promise_state = Pending | Fulfilled | Rejected js_error

datatype ensure_result = ReturnsUndefined | ReturnsPromise nat

datatype timer = LedTimer bool | ReadyTimer nat

text \<open>
  What waits on a promise returned by \<open>ensureReady\<close>: the rest of \<open>setLeds\<close>
  after its \<open>await\<close>, the \<open>.catch\<close> of \<open>onPress\<close>, \<open>onRelease\<close> and
  \<open>onChange\<close> (which emits the error) and the \<open>.catch\<close> of \<open>onError\<close> (which
  calls the callback).
\<close>

datatype reaction =
    AwaitLeds ensure_result js_value js_value js_value js_value
  | CatchEmit ensure_result
  | CatchCall ensure_result callback

text \<open>
  The variables closed over by \<open>Buzzer()\<close>, followed by what the run-time holds for
  it (promises, suspended \<open>setupBuzzListener\<close> calls, timers, whether the data
  listener is attached) and by logs of what the session did.
\<close>

record session =
  device :: "usb_device option"
  iface :: "usb_iface option"
  endpoint :: "usb_endpoint option"
  hidDevice :: "hid_device option"
  currentStates :: "bool list"
  isReady :: bool
  readyPromise :: "nat option"
  ee :: "event_kind \<Rightarrow> handler list"
  promises :: "promise_state list"
  suspended :: "(nat \<times> (js_error + usb_device \<times> usb_iface)) list"
  reactions :: "reaction list"
  timers :: "timer list"
  listening :: bool
  emitted :: "(event_kind \<times> js_value) list"
  delivered :: "delivery list"
  hid_writes :: "8 word list list"
  setups :: nat
  ensure_log :: "(bool \<times> ensure_result) list"

definition Buzzer :: session where
  "Buzzer = \<lparr> device = None, iface = None, endpoint = None, hidDevice = None,
     currentStates = replicate (length BUTTONS_DATA) False,
     isReady = False, readyPromise = None, ee = (\<lambda>k. []),
     promises = [], suspended = [], reactions = [], timers = [], listening = False,
     emitted = [], delivered = [], hid_writes = [], setups = 0, ensure_log = [] \<rparr>"

definition emit :: "event_kind \<Rightarrow> js_value \<Rightarrow> session \<Rightarrow> session \<times> js_error option" where
  "emit k v s =
     (case emit_listeners (ee s) k v of
        (ds, r) \<Rightarrow> (s\<lparr> emitted := emitted s @ [(k, v)], delivered := delivered s @ ds \<rparr>, r))"

definition ee_on :: "event_kind \<Rightarrow> handler \<Rightarrow> session \<Rightarrow> session" where
  "ee_on k h s = s\<lparr> ee := (ee s)(k := ee s k @ [h]) \<rparr>"

section \<open>The data listener of setupBuzzListener\<close>

text \<open>\<open>Buffer.readUInt8\<close> and \<open>Buffer.readUInt16LE\<close>: a RangeError outside the buffer.\<close>

definition readUInt8 :: "8 word list \<Rightarrow> nat \<Rightarrow> js_error + 32 word" where
  "readUInt8 data off =
     (if off < length data then Inr (ucast (data ! off))
      else Inl (RangeError ''Attempt to access memory outside buffer bounds''))"

definition readUInt16LE :: "8 word list \<Rightarrow> nat \<Rightarrow> js_error + 32 word" where
  "readUInt16LE data off =
     (if off + 1 < length data
      then Inr (ucast (data ! off) + ucast (data ! (off + 1)) * 2 ^ 8)
      else Inl (RangeError ''Attempt to access memory outside buffer bounds''))"

text \<open>\<open>data.readUInt16LE(2) | (data.readUInt8(4) << 16)\<close>\<close>

definition pressedBits :: "8 word list \<Rightarrow> js_error + 32 word" where
  "pressedBits data =
     (case readUInt16LE data 2 of Inl e \<Rightarrow> Inl e | Inr lo \<Rightarrow>
      case readUInt8 data 4 of Inl e \<Rightarrow> Inl e | Inr hi \<Rightarrow> Inr (lo OR push_bit 16 hi))"

text \<open>
  Array read and write by index. A read past the end is \<open>undefined\<close>; a write past the
  end grows the array. The state array has one entry per button and is only indexed by
  button positions, so neither happens in a session.
\<close>

definition array_get :: "bool list \<Rightarrow> nat \<Rightarrow> js_value" where
  "array_get xs i = (if i < length xs then JBool (xs ! i) else JUndefined)"

definition array_set :: "bool list \<Rightarrow> nat \<Rightarrow> bool \<Rightarrow> bool list" where
  "array_set xs i v =
     (if i < length xs then xs[i := v] else xs @ replicate (i - length xs) False @ [v])"

text \<open>\<open>{ ...button, type: eventType }\<close>\<close>

definition button_event :: "button_data \<Rightarrow> event_kind \<Rightarrow> js_value" where
  "button_event b eventType =
     JObj [(''name'', JStr (name b)), (''color'', JStr (color b)),
           (''controller'', JNum (int (controller b))), (''button'', JNum (int (button b))),
           (''bit'', JNum (uint (bit_mask b))), (''type'', JStr (EVENTS eventType))]"

text \<open>
  The body of \<open>BUTTONS_DATA.forEach((button, index) => ...)\<close>, from position
  \<open>index\<close> on. An exception leaving \<open>ee.emit\<close> ends the loop.
\<close>

fun forEach_button ::
  "bool list \<Rightarrow> 32 word \<Rightarrow> button_data list \<Rightarrow> nat \<Rightarrow> session \<Rightarrow> session \<times> js_error option" where
  "forEach_button previousStates bits [] index s = (s, None)"
| "forEach_button previousStates bits (b # bs) index s =
     (let isPressedNow = (bits AND bit_mask b \<noteq> 0);
          wasPressed = array_get previousStates index;
          s1 = s\<lparr> currentStates := array_set (currentStates s) index isPressedNow \<rparr>
      in if JBool isPressedNow \<noteq> wasPressed
         then (case emit (if isPressedNow then PRESS else RELEASE)
                         (button_event b (if isPressedNow then PRESS else RELEASE)) s1 of
                 (s2, Some e) \<Rightarrow> (s2, Some e)
               | (s2, None) \<Rightarrow> forEach_button previousStates bits bs (Suc index) s2)
         else forEach_button previousStates bits bs (Suc index) s1)"

definition on_data :: "8 word list \<Rightarrow> session \<Rightarrow> session \<times> js_error option" where
  "on_data data s =
     (if length data < 5 then (s, None)
      else case pressedBits data of
             Inl e \<Rightarrow> (s, Some e)
           | Inr bits \<Rightarrow> forEach_button (currentStates s) bits BUTTONS_DATA 0 s)"

section \<open>LEDs\<close>

definition hid_write :: "hid_device \<Rightarrow> 8 word list \<Rightarrow> session \<Rightarrow> session \<times> js_error option" where
  "hid_write h report s = (s\<lparr> hid_writes := hid_writes s @ [report] \<rparr>, write_error h report)"

definition led_byte :: "js_value \<Rightarrow> 8 word" where
  "led_byte player = (if truthy player then 0xFF else 0x00)"

definition privateSetLeds ::
  "js_value \<Rightarrow> js_value \<Rightarrow> js_value \<Rightarrow> js_value \<Rightarrow> session \<Rightarrow> session \<times> js_error option" where
  "privateSetLeds player1 player2 player3 player4 s =
     (case hidDevice s of
        None \<Rightarrow> (s, None)
      | Some h \<Rightarrow>
          (let report = [0x00, 0x00, led_byte player1, led_byte player2,
                         led_byte player3, led_byte player4, 0x00, 0x00]
           in case hid_write h report s of
                (s1, None) \<Rightarrow> (s1, None)
              | (s1, Some err) \<Rightarrow>
                  (let shortReport = [0x00, 0x00, led_byte player1, led_byte player2,
                                      led_byte player3, led_byte player4]
                   in case hid_write h shortReport s1 of
                        (s2, None) \<Rightarrow> (s2, None)
                      | (s2, Some innerErr) \<Rightarrow> emit ERROR (JStr ''Failed to set LEDs'') s2)))"

section \<open>USB device management\<close>

definition digit_char :: "nat \<Rightarrow> char" where
  "digit_char d = ''0123456789abcdef'' ! (d mod 16)"

function to_base :: "nat \<Rightarrow> nat \<Rightarrow> string" where
  "to_base b n = (if b < 2 \<or> n < b then [digit_char n] else to_base b (n div b) @ [digit_char (n mod b)])"
  by pat_completeness auto
termination
  by (relation "measure snd") auto

fun join :: "string \<Rightarrow> string list \<Rightarrow> string" where
  "join sep [] = []"
| "join sep [x] = x"
| "join sep (x # y # ys) = x @ sep @ join sep (y # ys)"

definition openAndClaim_try ::
  "environment \<Rightarrow> session \<Rightarrow> session \<times> (js_error + usb_device \<times> usb_iface)" where
  "openAndClaim_try env s =
     (let s1 = s\<lparr> device := findByIds env VID PID \<rparr> in
      case device s1 of
        None \<Rightarrow>
          (let errMsg = ''Dongle not found. Check connection and VID/PID.'' in
           case emit ERROR (JStr errMsg) s1 of
             (s2, Some e) \<Rightarrow> (s2, Inl e)
           | (s2, None) \<Rightarrow> (s2, Inl (CustomError errMsg None)))
      | Some d \<Rightarrow>
          (case open_error d of
             Some e \<Rightarrow> (s1, Inl e)
           | None \<Rightarrow>
               (let s2 = s1\<lparr> iface := interface0 d \<rparr> in
                case iface s2 of
                  None \<Rightarrow>
                    (let errMsg = ''Interface 0 not found'' in
                     case emit ERROR (JStr errMsg) s2 of
                       (s3, Some e) \<Rightarrow> (s3, Inl e)
                     | (s3, None) \<Rightarrow> (s3, Inl (CustomError errMsg None)))
                | Some i \<Rightarrow>
                    (case (if platform env \<noteq> ''win32'' \<and> isKernelDriverActive i = Some True
                           then detachKernelDriver_error i else None) of
                       Some e \<Rightarrow> (s2, Inl e)
                     | None \<Rightarrow>
                         (case claim_error i of
                            Some e \<Rightarrow> (s2, Inl e)
                          | None \<Rightarrow> (s2, Inr (d, i)))))))"

definition openAndClaim ::
  "environment \<Rightarrow> session \<Rightarrow> session \<times> (js_error + usb_device \<times> usb_iface)" where
  "openAndClaim env s =
     (case openAndClaim_try env s of
        (s1, Inr r) \<Rightarrow> (s1, Inr r)
      | (s1, Inl err) \<Rightarrow>
          (let errMsg = ''Failed to open the connection to the dongle.'' in
           case emit ERROR (JStr errMsg) s1 of
             (s2, Some e) \<Rightarrow> (s2, Inl e)
           | (s2, None) \<Rightarrow> (s2, Inl (CustomError errMsg (Some err)))))"

definition describe_endpoint :: "usb_endpoint \<Rightarrow> string" where
  "describe_endpoint e =
     ''  - '' @ direction e @ '' '' @ to_base 10 (transferType e) @
     '' (addr 0x'' @ to_base 16 (address e) @ '')''"

definition findInterruptEndpoint :: "usb_iface \<Rightarrow> session \<Rightarrow> session \<times> (js_error + usb_endpoint)" where
  "findInterruptEndpoint i s =
     (case find (\<lambda>ep. direction ep = ''in'' \<and> transferType ep = 3) (endpoints i) of
        Some ep \<Rightarrow> (s, Inr ep)
      | None \<Rightarrow>
          (let errMsg = ''No INTERRUPT IN endpoint found!'' @ [CHR 0x0A] @
                        ''Available endpoints:'' @ [CHR 0x0A] @
                        join [CHR 0x0A] (map describe_endpoint (endpoints i)) in
           case emit ERROR (JStr errMsg) s of
             (s1, Some e) \<Rightarrow> (s1, Inl e)
           | (s1, None) \<Rightarrow> (s1, Inl (CustomError errMsg None))))"

section \<open>Setup\<close>

text \<open>
  \<open>setupBuzzListener\<close> after its \<open>await openAndClaim()\<close>, given what that call
  settled with. The \<open>try\<close> body first, then the \<open>catch\<close> that wraps any error.
\<close>

definition setupBuzzListener_try ::
  "environment \<Rightarrow> (js_error + usb_device \<times> usb_iface) \<Rightarrow> session \<Rightarrow> session \<times> js_error option" where
  "setupBuzzListener_try env result s =
     (case result of
        Inl e \<Rightarrow> (s, Some e)
      | Inr (d, i) \<Rightarrow>
          (let s1 = s\<lparr> device := Some d, iface := Some i \<rparr> in
           case HID_open env VID PID of
             Inl e \<Rightarrow> (s1, Some e)
           | Inr h \<Rightarrow>
               (let s2 = s1\<lparr> hidDevice := Some h \<rparr> in
                case findInterruptEndpoint i s2 of
                  (s3, Inl e) \<Rightarrow> (s3, Some e)
                | (s3, Inr ep) \<Rightarrow>
                    (let s4 = s3\<lparr> endpoint := Some ep \<rparr> in
                     case startPoll_error ep of
                       Some e \<Rightarrow> (s4, Some e)
                     | None \<Rightarrow> (s4\<lparr> listening := True \<rparr>, None)))))"

definition setupBuzzListener_resume ::
  "environment \<Rightarrow> (js_error + usb_device \<times> usb_iface) \<Rightarrow> session \<Rightarrow> session \<times> js_error option" where
  "setupBuzzListener_resume env result s =
     (case setupBuzzListener_try env result s of
        (s1, None) \<Rightarrow> (s1, None)
      | (s1, Some err) \<Rightarrow> (s1, Some (CustomError ''Buzzers setup failed'' (Some err))))"

section \<open>Readiness\<close>

text \<open>
  \<open>ensureReady\<close>, up to its \<open>return\<close>. Starting a setup calls
  \<open>setupBuzzListener()\<close>, which runs \<open>openAndClaim()\<close> to its end before the first
  \<open>await\<close> suspends it; the new promise is the one the \<open>.then(...).catch(...)\<close>
  chain yields. The function is \<open>async\<close>: what a caller holds settles as the promise
  returned here does, or at once when \<open>undefined\<close> is returned. Every call is logged
  with the value of \<open>isReady\<close> it found.
\<close>

definition ensureReady :: "environment \<Rightarrow> session \<Rightarrow> session \<times> ensure_result" where
  "ensureReady env s =
     (if isReady s then (s\<lparr> ensure_log := ensure_log s @ [(True, ReturnsUndefined)] \<rparr>, ReturnsUndefined)
      else case readyPromise s of
        Some p \<Rightarrow> (s\<lparr> ensure_log := ensure_log s @ [(False, ReturnsPromise p)] \<rparr>, ReturnsPromise p)
      | None \<Rightarrow>
          (case openAndClaim env s of
             (s1, result) \<Rightarrow>
               (let p = length (promises s1) in
                (s1\<lparr> setups := Suc (setups s1),
                      suspended := suspended s1 @ [(p, result)],
                      promises := promises s1 @ [Pending],
                      readyPromise := Some p,
                      ensure_log := ensure_log s1 @ [(False, ReturnsPromise p)] \<rparr>,
                 ReturnsPromise p))))"

definition settle :: "nat \<Rightarrow> promise_state \<Rightarrow> session \<Rightarrow> session" where
  "settle p st s = s\<lparr> promises := (promises s)[p := st] \<rparr>"

text \<open>
  The \<open>.then\<close> handler: three on/off cycles at 0, 350, 550, 900, 1100 and 1450 ms and
  the final timer at 1850 ms, kept in firing order.
\<close>

definition start_animation :: "nat \<Rightarrow> session \<Rightarrow> session" where
  "start_animation p s =
     s\<lparr> timers := timers s @ [LedTimer True, LedTimer False, LedTimer True, LedTimer False,
                              LedTimer True, LedTimer False, ReadyTimer p] \<rparr>"

text \<open>The \<open>.catch\<close> handler.\<close>

definition setup_failed :: "nat \<Rightarrow> js_error \<Rightarrow> session \<Rightarrow> session" where
  "setup_failed p err s =
     (let customError = CustomError (if message err = [] then ''Setup failed'' else message err) (Some err) in
      case emit ERROR (JErr customError) s of
        (s1, Some e) \<Rightarrow> settle p (Rejected e) s1
      | (s1, None) \<Rightarrow> settle p (Rejected customError) s1)"

text \<open>
  The oldest suspended \<open>setupBuzzListener\<close> call resumes and the handler chained on
  its outcome runs.
\<close>

definition setup_resume :: "environment \<Rightarrow> session \<Rightarrow> session" where
  "setup_resume env s =
     (case suspended s of
        [] \<Rightarrow> s
      | (p, result) # rest \<Rightarrow>
          (case setupBuzzListener_resume env result (s\<lparr> suspended := rest \<rparr>) of
             (s1, None) \<Rightarrow> start_animation p s1
           | (s1, Some err) \<Rightarrow> setup_failed p err s1))"

text \<open>The next timer fires. An exception leaving a timer callback is not caught.\<close>

definition fire_timer :: "session \<Rightarrow> session \<times> js_error option" where
  "fire_timer s =
     (case timers s of
        [] \<Rightarrow> (s, None)
      | LedTimer b # ts \<Rightarrow>
          privateSetLeds (JBool b) (JBool b) (JBool b) (JBool b) (s\<lparr> timers := ts \<rparr>)
      | ReadyTimer p # ts \<Rightarrow>
          (case emit READY JUndefined (s\<lparr> timers := ts, isReady := True \<rparr>) of
             (s1, Some e) \<Rightarrow> (s1, Some e)
           | (s1, None) \<Rightarrow> (settle p Fulfilled s1, None)))"

section \<open>Public operations\<close>

text \<open>
  An \<open>async\<close> operation up to its first suspension: it has thrown (its promise is
  rejected), or it waits on what \<open>ensureReady\<close> returned.
\<close>

datatype async_outcome = Throws js_error | Waits ensure_result

definition setLeds ::
  "environment \<Rightarrow> js_value \<Rightarrow> js_value \<Rightarrow> js_value \<Rightarrow> js_value \<Rightarrow> session \<Rightarrow> session \<times> async_outcome" where
  "setLeds env player1 player2 player3 player4 s =
     (case ensureReady env s of
        (s1, r) \<Rightarrow>
          (s1\<lparr> reactions := reactions s1 @ [AwaitLeds r player1 player2 player3 player4] \<rparr>, Waits r))"

text \<open>\<open>setLeds(...players)\<close> on an array of four elements.\<close>

definition setLedsarray :: "environment \<Rightarrow> js_value \<Rightarrow> session \<Rightarrow> session \<times> async_outcome" where
  "setLedsarray env players s =
     (case players of
        JArr [a, b, c, d] \<Rightarrow> setLeds env a b c d s
      | _ \<Rightarrow> (s, Throws (CustomError ''Invalid array: must be boolean[4]'' None)))"

definition onReady :: "callback \<Rightarrow> session \<Rightarrow> session" where
  "onReady cb s = ee_on READY (Plain cb) s"

definition onPress :: "environment \<Rightarrow> callback \<Rightarrow> session \<Rightarrow> session" where
  "onPress env cb s =
     (case ensureReady env s of
        (s1, r) \<Rightarrow> ee_on PRESS (PressHandler cb) (s1\<lparr> reactions := reactions s1 @ [CatchEmit r] \<rparr>))"

definition onRelease :: "environment \<Rightarrow> callback \<Rightarrow> session \<Rightarrow> session" where
  "onRelease env cb s =
     (case ensureReady env s of
        (s1, r) \<Rightarrow> ee_on RELEASE (ReleaseHandler cb) (s1\<lparr> reactions := reactions s1 @ [CatchEmit r] \<rparr>))"

definition onChange :: "environment \<Rightarrow> callback \<Rightarrow> session \<Rightarrow> session" where
  "onChange env cb s =
     (case ensureReady env s of
        (s1, r) \<Rightarrow>
          ee_on RELEASE (ChangeHandler cb)
            (ee_on PRESS (ChangeHandler cb) (s1\<lparr> reactions := reactions s1 @ [CatchEmit r] \<rparr>)))"

definition onError :: "environment \<Rightarrow> callback \<Rightarrow> session \<Rightarrow> session" where
  "onError env cb s =
     (case ensureReady env s of
        (s1, r) \<Rightarrow> ee_on ERROR (Plain cb) (s1\<lparr> reactions := reactions s1 @ [CatchCall r cb] \<rparr>))"

text \<open>
  \<open>close()\<close>, with the callback of \<open>iface.release\<close> run in the same step. The result
  says whether the returned promise resolves: an exception inside the release callback
  is outside the \<open>try\<close>, and then \<open>resolve\<close> is never reached.
\<close>

definition release_callback :: "session \<Rightarrow> session \<times> bool" where
  "release_callback s =
     (case (case device s of None \<Rightarrow> None | Some d \<Rightarrow> close_error d) of
        Some e \<Rightarrow> (s, False)
      | None \<Rightarrow>
          (case (case hidDevice s of None \<Rightarrow> None | Some h \<Rightarrow> hid_close_error h) of
             Some e \<Rightarrow> (s, False)
           | None \<Rightarrow> (s\<lparr> isReady := False, readyPromise := None \<rparr>, True)))"

definition close :: "session \<Rightarrow> session \<times> bool" where
  "close s =
     (case (case endpoint s of None \<Rightarrow> None | Some ep \<Rightarrow> stopPoll_error ep) of
        Some err \<Rightarrow> (s, True)
      | None \<Rightarrow>
          (let s1 = (case endpoint s of None \<Rightarrow> s | Some ep \<Rightarrow> s\<lparr> listening := False \<rparr>) in
           case iface s1 of
             None \<Rightarrow> (s1, True)
           | Some i \<Rightarrow>
               (case release_error i of
                  Some err \<Rightarrow> (s1, True)
                | None \<Rightarrow> release_callback (s1\<lparr> listening := False \<rparr>))))"

section \<open>Runs of a session\<close>

definition outcome :: "promise_state list \<Rightarrow> ensure_result \<Rightarrow> promise_state" where
  "outcome ps r =
     (case r of
        ReturnsUndefined \<Rightarrow> Fulfilled
      | ReturnsPromise p \<Rightarrow> (if p < length ps then ps ! p else Pending))"

fun awaited :: "reaction \<Rightarrow> ensure_result" where
  "awaited (AwaitLeds r a b c d) = r"
| "awaited (CatchEmit r) = r"
| "awaited (CatchCall r cb) = r"

text \<open>The first reaction whose promise has settled, and the reactions left.\<close>

fun next_settled :: "promise_state list \<Rightarrow> reaction list \<Rightarrow> (reaction \<times> reaction list) option" where
  "next_settled ps [] = None"
| "next_settled ps (x # xs) =
     (if outcome ps (awaited x) \<noteq> Pending then Some (x, xs)
      else (case next_settled ps xs of None \<Rightarrow> None | Some (y, ys) \<Rightarrow> Some (y, x # ys)))"

fun run_reaction :: "reaction \<Rightarrow> session \<Rightarrow> session \<times> js_error option" where
  "run_reaction (AwaitLeds r a b c d) s =
     (case outcome (promises s) r of
        Fulfilled \<Rightarrow> privateSetLeds a b c d s
      | Rejected e \<Rightarrow> (s, Some e)
      | Pending \<Rightarrow> (s, None))"
| "run_reaction (CatchEmit r) s =
     (case outcome (promises s) r of
        Rejected e \<Rightarrow> emit ERROR (JErr e) s
      | _ \<Rightarrow> (s, None))"
| "run_reaction (CatchCall r cb) s =
     (case outcome (promises s) r of
        Rejected e \<Rightarrow> (case invoke cb (JErr e) of (ds, x) \<Rightarrow> (s\<lparr> delivered := delivered s @ ds \<rparr>, x))
      | _ \<Rightarrow> (s, None))"

definition react :: "session \<Rightarrow> session" where
  "react s =
     (case next_settled (promises s) (reactions s) of
        None \<Rightarrow> s
      | Some (x, rest) \<Rightarrow> fst (run_reaction x (s\<lparr> reactions := rest \<rparr>)))"

text \<open>
  One step of a session: a call of a public operation (or of \<open>ensureReady\<close> itself),
  a resumed setup, a reaction to a settled promise, a timer, or a report from the
  endpoint, which arrives only while the data listener is attached. Exceptions that
  leave a timer or the data listener reach no caller.
\<close>

datatype action =
    CallEnsureReady
  | CallOnReady callback
  | CallOnPress callback
  | CallOnRelease callback
  | CallOnChange callback
  | CallOnError callback
  | CallSetLeds js_value js_value js_value js_value
  | CallSetLedsarray js_value
  | CallClose
  | Resume
  | React
  | Timer
  | Data "8 word list"

fun step :: "environment \<Rightarrow> action \<Rightarrow> session \<Rightarrow> session" where
  "step env CallEnsureReady s = fst (ensureReady env s)"
| "step env (CallOnReady cb) s = onReady cb s"
| "step env (CallOnPress cb) s = onPress env cb s"
| "step env (CallOnRelease cb) s = onRelease env cb s"
| "step env (CallOnChange cb) s = onChange env cb s"
| "step env (CallOnError cb) s = onError env cb s"
| "step env (CallSetLeds a b c d) s = fst (setLeds env a b c d s)"
| "step env (CallSetLedsarray players) s = fst (setLedsarray env players s)"
| "step env CallClose s = fst (close s)"
| "step env Resume s = setup_resume env s"
| "step env React s = react s"
| "step env Timer s = fst (fire_timer s)"
| "step env (Data data) s = (if listening s then fst (on_data data s) else s)"

text \<open>A run: each action together with what the transport answers at that moment.\<close>

fun run :: "(environment \<times> action) list \<Rightarrow> session \<Rightarrow> session" where
  "run [] s = s"
| "run ((env, a) # rest) s = run rest (step env a s)"

section \<open>The specification's notions\<close>

text \<open>
  The little-endian 16-bit value of two bytes, and the pressed-bit field of a report as
  the specification words it: that value at offset 2, or-ed with the byte at offset 4
  shifted left by 16.
\<close>

definition little_endian16 :: "8 word \<Rightarrow> 8 word \<Rightarrow> 32 word" where
  "little_endian16 lo hi = ucast lo OR push_bit 8 (ucast hi)"

definition spec_field :: "8 word list \<Rightarrow> 32 word" where
  "spec_field data = little_endian16 (data ! 2) (data ! 3) OR push_bit 16 (ucast (data ! 4))"

text \<open>
  The transitions of one update as the specification words them: the descriptors in
  registry order, each against its stored entry, a Press or a Release where the two
  differ and nothing where they agree.
\<close>

definition pressed_in :: "32 word \<Rightarrow> button_data \<Rightarrow> bool" where
  "pressed_in field b = (field AND bit_mask b \<noteq> 0)"

definition transition :: "32 word \<Rightarrow> button_data \<times> bool \<Rightarrow> (event_kind \<times> js_value) list" where
  "transition field bw =
     (case bw of (b, stored) \<Rightarrow>
        if pressed_in field b = stored then []
        else if pressed_in field b then [(PRESS, button_event b PRESS)]
        else [(RELEASE, button_event b RELEASE)])"

definition transitions :: "32 word \<Rightarrow> button_data list \<Rightarrow> bool list \<Rightarrow> (event_kind \<times> js_value) list" where
  "transitions field bs stored = concat (map (transition field) (zip bs stored))"

text \<open>No press or release listener of the session throws, whatever it is given.\<close>

definition quiet :: "session \<Rightarrow> bool" where
  "quiet s = (\<forall>h \<in> set (ee s PRESS) \<union> set (ee s RELEASE). \<forall>v. snd (run_handler h v) = None)"

text \<open>Two consumer callbacks: one returns, one throws.\<close>

definition returns :: "js_value \<Rightarrow> js_error option" where
  "returns v = None"

definition throws :: "js_value \<Rightarrow> js_error option" where
  "throws v = Some (Error ''listener failed'')"

text \<open>
  A fresh session with one press listener, and one with two of which the first throws
  and the second returns.
\<close>

definition one_listener :: session where
  "one_listener = ee_on PRESS (PressHandler (1, returns)) Buzzer"

definition two_listeners :: session where
  "two_listeners = ee_on PRESS (PressHandler (2, returns)) (ee_on PRESS (PressHandler (1, throws)) Buzzer)"

text \<open>What calling each of the handlers \<open>hs\<close> on \<open>v\<close> delivers, in order.\<close>

definition called :: "js_value \<Rightarrow> handler list \<Rightarrow> delivery list" where
  "called v hs = concat (map (\<lambda>h. fst (run_handler h v)) hs)"

fun handler_callback :: "handler \<Rightarrow> callback" where
  "handler_callback (PressHandler cb) = cb"
| "handler_callback (ReleaseHandler cb) = cb"
| "handler_callback (ChangeHandler cb) = cb"
| "handler_callback (Plain cb) = cb"

text \<open>
  The events on which the public operations register each kind of handler:
  \<open>onPress\<close> on press, \<open>onRelease\<close> on release, \<open>onChange\<close> on both,
  \<open>onReady\<close> and \<open>onError\<close> the plain callback on ready and error.
\<close>

fun api_handler :: "event_kind \<Rightarrow> handler \<Rightarrow> bool" where
  "api_handler k (PressHandler cb) = (k = PRESS)"
| "api_handler k (ReleaseHandler cb) = (k = RELEASE)"
| "api_handler k (ChangeHandler cb) = (k = PRESS \<or> k = RELEASE)"
| "api_handler k (Plain cb) = (k = READY \<or> k = ERROR)"

definition api_listeners :: "session \<Rightarrow> bool" where
  "api_listeners s = (\<forall>k \<in> {PRESS, RELEASE, READY, ERROR}. \<forall>h \<in> set (ee s k). api_handler k h)"

text \<open>The object a consumer callback receives for button \<open>b\<close> and event \<open>k\<close>.\<close>

definition formatted :: "button_data \<Rightarrow> event_kind \<Rightarrow> js_value" where
  "formatted b k =
     JObj [(''controller'', JNum (int (controller b))), (''button'', JNum (int (button b))),
           (''Name'', JStr (name b)), (''color'', JStr (color b)),
           (''pressed'', JBool (k = PRESS)),
           (''state'', JStr (if k = PRESS then ''pressed'' else ''released''))]"

fun num_between :: "int \<Rightarrow> int \<Rightarrow> js_value \<Rightarrow> bool" where
  "num_between lo hi (JNum n) = (lo \<le> n \<and> n \<le> hi)"
| "num_between lo hi v = False"

fun is_string :: "js_value \<Rightarrow> bool" where
  "is_string (JStr s) = True"
| "is_string v = False"

text \<open>
  The shape of a button event: the six keys in this order, a controller from 1 to 4, a
  button from 0 to 4, two strings, and \<open>pressed\<close> true with state \<open>pressed\<close> or
  false with state \<open>released\<close>.
\<close>

definition consumer_event :: "js_value \<Rightarrow> bool" where
  "consumer_event v =
     (case v of
        JObj kvs \<Rightarrow>
          map fst kvs = [''controller'', ''button'', ''Name'', ''color'', ''pressed'', ''state''] \<and>
          num_between 1 4 (snd (kvs ! 0)) \<and>
          num_between 0 4 (snd (kvs ! 1)) \<and>
          is_string (snd (kvs ! 2)) \<and>
          is_string (snd (kvs ! 3)) \<and>
          (snd (kvs ! 4) = JBool True \<and> snd (kvs ! 5) = JStr ''pressed'' \<or>
           snd (kvs ! 4) = JBool False \<and> snd (kvs ! 5) = JStr ''released'')
      | _ \<Rightarrow> False)"

text \<open>\<open>Array.isArray(players) && players.length === 4\<close>\<close>

definition is_array4 :: "js_value \<Rightarrow> bool" where
  "is_array4 v = (case v of JArr xs \<Rightarrow> length xs = 4 | _ \<Rightarrow> False)"

text \<open>The two LED reports of the specification, for four player booleans.\<close>

definition primary_report :: "bool \<Rightarrow> bool \<Rightarrow> bool \<Rightarrow> bool \<Rightarrow> 8 word list" where
  "primary_report p1 p2 p3 p4 =
     [0x00, 0x00, if p1 then 0xFF else 0x00, if p2 then 0xFF else 0x00,
      if p3 then 0xFF else 0x00, if p4 then 0xFF else 0x00, 0x00, 0x00]"

definition fallback_report :: "bool \<Rightarrow> bool \<Rightarrow> bool \<Rightarrow> bool \<Rightarrow> 8 word list" where
  "fallback_report p1 p2 p3 p4 =
     [0x00, 0x00, if p1 then 0xFF else 0x00, if p2 then 0xFF else 0x00,
      if p3 then 0xFF else 0x00, if p4 then 0xFF else 0x00]"

text \<open>
  Transports for concrete runs: a dongle with one interrupt IN endpoint whose HID
  channel accepts every report (\<open>plugged\<close>) or rejects every report
  (\<open>plugged_deaf\<close>), and no dongle at all (\<open>unplugged\<close>).
\<close>

definition accepts :: "8 word list \<Rightarrow> js_error option" where
  "accepts report = None"

definition rejects :: "8 word list \<Rightarrow> js_error option" where
  "rejects report = Some (Error ''could not write to device'')"

definition in_endpoint :: usb_endpoint where
  "in_endpoint = \<lparr> direction = ''in'', transferType = 3, address = 0x81, wMaxPacketSize = 8,
     startPoll_error = None, stopPoll_error = None \<rparr>"

definition dongle_iface :: usb_iface where
  "dongle_iface = \<lparr> endpoints = [in_endpoint], isKernelDriverActive = Some False,
     detachKernelDriver_error = None, claim_error = None, release_error = None \<rparr>"

definition dongle :: usb_device where
  "dongle = \<lparr> open_error = None, interface0 = Some dongle_iface, close_error = None \<rparr>"

definition plugged :: environment where
  "plugged = \<lparr> findByIds = (\<lambda>v p. if v = VID \<and> p = PID then Some dongle else None),
     HID_open = (\<lambda>v p. Inr \<lparr> write_error = accepts, hid_close_error = None \<rparr>),
     platform = ''linux'' \<rparr>"

definition plugged_deaf :: environment where
  "plugged_deaf = \<lparr> findByIds = (\<lambda>v p. if v = VID \<and> p = PID then Some dongle else None),
     HID_open = (\<lambda>v p. Inr \<lparr> write_error = rejects, hid_close_error = None \<rparr>),
     platform = ''linux'' \<rparr>"

definition unplugged :: environment where
  "unplugged = \<lparr> findByIds = (\<lambda>v p. None),
     HID_open = (\<lambda>v p. Inl (Error ''cannot open device'')),
     platform = ''linux'' \<rparr>"

text \<open>
  Sessions brought to readiness by one call and the steps that follow it (the resumed
  setup and the seven timers): \<open>ready\<close> on a working dongle; \<open>deaf_ready\<close> on
  one whose HID channel rejects every report, with no error listener; \<open>deaf_heard\<close>
  the same with an error listener registered first.
\<close>

definition ready :: session where
  "ready = run [(plugged, CallEnsureReady), (plugged, Resume), (plugged, Timer), (plugged, Timer),
                (plugged, Timer), (plugged, Timer), (plugged, Timer), (plugged, Timer),
                (plugged, Timer)] Buzzer"

definition deaf_ready :: session where
  "deaf_ready = run [(plugged_deaf, CallEnsureReady), (plugged_deaf, Resume), (plugged_deaf, Timer),
                     (plugged_deaf, Timer), (plugged_deaf, Timer), (plugged_deaf, Timer),
                     (plugged_deaf, Timer), (plugged_deaf, Timer), (plugged_deaf, Timer)] Buzzer"

definition deaf_heard :: session where
  "deaf_heard = run [(plugged_deaf, CallOnError (1, returns)), (plugged_deaf, Resume),
                     (plugged_deaf, Timer), (plugged_deaf, Timer), (plugged_deaf, Timer),
                     (plugged_deaf, Timer), (plugged_deaf, Timer), (plugged_deaf, Timer),
                     (plugged_deaf, Timer)] Buzzer"


text \<open>The part of a session on which readiness depends.\<close>

definition lifecycle ::
  "session \<Rightarrow> bool \<times> nat option \<times> nat \<times> (bool \<times> ensure_result) list \<times>
     (nat \<times> (js_error + usb_device \<times> usb_iface)) list \<times> timer list \<times> promise_state list" where
  "lifecycle s = (isReady s, readyPromise s, setups s, ensure_log s, suspended s, timers s, promises s)"







text \<open>
  A teardown in which nothing throws: the session holds an interface whose release does
  not throw, and stopping the poll, closing the device and closing the HID channel do
  not throw either, for those of the handles the session holds.
\<close>

definition clean_teardown :: "session \<Rightarrow> bool" where
  "clean_teardown s =
     ((case iface s of None \<Rightarrow> False | Some i \<Rightarrow> release_error i = None) \<and>
      (case endpoint s of None \<Rightarrow> True | Some ep \<Rightarrow> stopPoll_error ep = None) \<and>
      (case device s of None \<Rightarrow> True | Some d \<Rightarrow> close_error d = None) \<and>
      (case hidDevice s of None \<Rightarrow> True | Some h \<Rightarrow> hid_close_error h = None))"


text \<open>The stored button states and the listener table of a session.\<close>

definition wiring :: "session \<Rightarrow> bool list \<times> (event_kind \<Rightarrow> handler list)" where
  "wiring s = (currentStates s, ee s)"

text \<open>
  One stored state per button of the registry, and every listener registered where the
  public operations register it.
\<close>

definition well_formed :: "session \<Rightarrow> bool" where
  "well_formed s = (length (currentStates s) = length BUTTONS_DATA \<and> api_listeners s)"



text \<open>
  A session whose setup has resumed and started the animation (\<open>animating\<close>); the
  same closed at that moment, with the seven timers of the animation firing afterwards
  (\<open>closed_in_animation\<close>); and the same closed at that moment, with a second caller
  of \<open>ensureReady\<close> afterwards (\<open>reopened\<close>).
\<close>

definition animating :: session where
  "animating = run [(plugged, CallEnsureReady), (plugged, Resume)] Buzzer"

definition closed_in_animation :: session where
  "closed_in_animation =
     run [(plugged, CallClose), (plugged, Timer), (plugged, Timer), (plugged, Timer),
          (plugged, Timer), (plugged, Timer), (plugged, Timer), (plugged, Timer)] animating"



text \<open>
  A fresh session on which \<open>onPress\<close> is called with a callback that throws, after
  its setup has resumed; and the ready session after a report that asserts C1_RED and
  C1_BLUE, on which \<open>onRelease\<close> is then called with a callback that throws.
\<close>

definition press_thrower :: session where
  "press_thrower = run [(plugged, CallOnPress (1, throws)), (plugged, Resume)] Buzzer"

definition release_thrower :: session where
  "release_thrower =
     run [(plugged, Data [0, 0, 0x11, 0, 0]), (plugged, CallOnRelease (1, throws))] ready"

section \<open>Properties of the data listener\<close>

lemma le16: "(ucast (lo::8 word) :: 32 word) + ucast (hi :: 8 word) * 2 ^ 8 = little_endian16 lo hi"
proof -
  have "(ucast lo :: 32 word) AND push_bit 8 (ucast hi) = 0"
    by (rule bit_eqI) (auto simp: bit_simps dest: bit_imp_le_length)
  then have "(ucast lo :: 32 word) + push_bit 8 (ucast hi) = ucast lo OR push_bit 8 (ucast hi)"
    by (rule disjunctive_add_eq_or)
  then show ?thesis
    by (simp add: little_endian16_def push_bit_eq_mult)
qed

lemma pressedBits_spec: "5 \<le> length data \<Longrightarrow> pressedBits data = Inr (spec_field data)"
  unfolding pressedBits_def readUInt16LE_def readUInt8_def spec_field_def le16 by simp

lemma emit_emitted: "emit k v s = (s', r) \<Longrightarrow> emitted s' = emitted s @ [(k, v)]"
  by (auto simp: emit_def split: prod.splits)

lemma emit_currentStates: "emit k v s = (s', r) \<Longrightarrow> currentStates s' = currentStates s"
  by (auto simp: emit_def split: prod.splits)

lemma forEach_button_step:
  "i < length prev \<Longrightarrow> i < length (currentStates s) \<Longrightarrow>
   forEach_button prev field (b # bs) i s =
     (if pressed_in field b = prev ! i
      then forEach_button prev field bs (Suc i)
             (s\<lparr> currentStates := (currentStates s)[i := pressed_in field b] \<rparr>)
      else (case emit (if pressed_in field b then PRESS else RELEASE)
                      (button_event b (if pressed_in field b then PRESS else RELEASE))
                      (s\<lparr> currentStates := (currentStates s)[i := pressed_in field b] \<rparr>) of
              (s2, Some e) \<Rightarrow> (s2, Some e)
            | (s2, None) \<Rightarrow> forEach_button prev field bs (Suc i) s2))"
  by (simp add: array_get_def array_set_def pressed_in_def Let_def)

lemma forEach_button_normal:
  "forEach_button prev field bs i s = (s', None) \<Longrightarrow>
   i + length bs \<le> length prev \<Longrightarrow> length (currentStates s) = length prev \<Longrightarrow>
   emitted s' = emitted s @ transitions field bs (drop i prev) \<and>
   currentStates s' =
     take i (currentStates s) @ map (pressed_in field) bs @ drop (i + length bs) (currentStates s)"
proof (induction bs arbitrary: i s)
  case Nil
  then show ?case by (simp add: transitions_def)
next
  case (Cons b bs)
  let ?now = "pressed_in field b"
  let ?s1 = "s\<lparr> currentStates := (currentStates s)[i := ?now] \<rparr>"
  from Cons.prems have i: "i < length prev" "i < length (currentStates s)" by simp_all
  have dr: "drop i prev = prev ! i # drop (Suc i) prev"
    using i by (simp add: Cons_nth_drop_Suc)
  have shape: "take (Suc i) ((currentStates s)[i := ?now]) = take i (currentStates s) @ [?now]"
    using i by (simp add: take_Suc_conv_app_nth)
  have unf: "(if ?now = prev ! i
      then forEach_button prev field bs (Suc i) ?s1
      else (case emit (if ?now then PRESS else RELEASE)
                      (button_event b (if ?now then PRESS else RELEASE)) ?s1 of
              (s2, Some e) \<Rightarrow> (s2, Some e)
            | (s2, None) \<Rightarrow> forEach_button prev field bs (Suc i) s2)) = (s', None)"
    using Cons.prems(1) unfolding forEach_button_step [OF i] .
  show ?case
  proof (cases "?now = prev ! i")
    case True
    with unf have run: "forEach_button prev field bs (Suc i) ?s1 = (s', None)"
      by simp
    from Cons.IH [OF run] Cons.prems i
    have "emitted s' = emitted s @ transitions field bs (drop (Suc i) prev)"
      and "currentStates s' = take (Suc i) ((currentStates s)[i := ?now]) @ map (pressed_in field) bs @
             drop (Suc i + length bs) ((currentStates s)[i := ?now])"
      by simp_all
    with True shape show ?thesis
      by (simp add: dr transitions_def transition_def)
  next
    case False
    let ?k = "if ?now then PRESS else RELEASE"
    obtain s2 r where em: "emit ?k (button_event b ?k) ?s1 = (s2, r)"
      by (cases "emit ?k (button_event b ?k) ?s1")
    with unf False have r: "r = None"
      and run: "forEach_button prev field bs (Suc i) s2 = (s', None)"
      by (auto split: option.splits)
    have cs2: "currentStates s2 = (currentStates s)[i := ?now]"
      using emit_currentStates [OF em] by simp
    have em2: "emitted s2 = emitted s @ [(?k, button_event b ?k)]"
      using emit_emitted [OF em] by simp
    from Cons.IH [OF run] Cons.prems i cs2
    have "emitted s' = emitted s2 @ transitions field bs (drop (Suc i) prev)"
      and "currentStates s' = take (Suc i) ((currentStates s)[i := ?now]) @ map (pressed_in field) bs @
             drop (Suc i + length bs) ((currentStates s)[i := ?now])"
      by simp_all
    with False shape em2 show ?thesis
      by (simp add: dr transitions_def transition_def)
  qed
qed

lemma emit_ee: "emit k v s = (s', r) \<Longrightarrow> ee s' = ee s"
  by (auto simp: emit_def split: prod.splits)

lemma call_listeners_quiet:
  "\<forall>h \<in> set hs. snd (run_handler h v) = None \<Longrightarrow> snd (call_listeners hs v) = None"
  by (induction hs) (auto split: prod.splits option.splits)

lemma emit_quiet:
  "k \<noteq> ERROR \<Longrightarrow> \<forall>h \<in> set (ee s k). snd (run_handler h v) = None \<Longrightarrow> snd (emit k v s) = None"
  using call_listeners_quiet [of "ee s k" v]
  by (auto simp: emit_def emit_listeners_def split: prod.splits)

lemma forEach_button_quiet:
  "quiet s \<Longrightarrow> snd (forEach_button prev field bs i s) = None"
proof (induction bs arbitrary: i s)
  case Nil
  then show ?case by simp
next
  case (Cons b bs)
  let ?now = "field AND bit_mask b \<noteq> 0"
  let ?k = "if ?now then PRESS else RELEASE"
  let ?s1 = "s\<lparr> currentStates := array_set (currentStates s) i ?now \<rparr>"
  have q1: "quiet ?s1"
    using Cons.prems by (simp add: quiet_def)
  show ?case
  proof (cases "JBool ?now \<noteq> array_get prev i")
    case False
    then show ?thesis
      using Cons.IH [OF q1] by (simp add: Let_def)
  next
    case True
    obtain s2 r where em: "emit ?k (button_event b ?k) ?s1 = (s2, r)"
      by (cases "emit ?k (button_event b ?k) ?s1")
    have "snd (emit ?k (button_event b ?k) ?s1) = None"
      using q1 by (intro emit_quiet) (auto simp: quiet_def)
    with em have r: "r = None" by simp
    have "quiet s2"
      using emit_ee [OF em] q1 by (simp add: quiet_def)
    from Cons.IH [OF this] have "snd (forEach_button prev field bs (Suc i) s2) = None" .
    with True em r show ?thesis
      by (simp add: Let_def)
  qed
qed

lemma on_data_quiet: "quiet s \<Longrightarrow> snd (on_data data s) = None"
  by (auto simp: on_data_def forEach_button_quiet pressedBits_def readUInt16LE_def readUInt8_def)

lemma quiet_Buzzer: "quiet Buzzer"
  by (simp add: quiet_def Buzzer_def)

lemma forEach_button_fixed:
  "i + length bs \<le> length prev \<Longrightarrow> length (currentStates s) = length prev \<Longrightarrow>
   \<forall>j < length bs. prev ! (i + j) = pressed_in field (bs ! j) \<Longrightarrow>
   \<forall>j < length bs. currentStates s ! (i + j) = pressed_in field (bs ! j) \<Longrightarrow>
   forEach_button prev field bs i s = (s, None)"
proof (induction bs arbitrary: i)
  case Nil
  then show ?case by simp
next
  case (Cons b bs)
  from Cons.prems have i: "i < length prev" "i < length (currentStates s)" by simp_all
  from Cons.prems(3) have p0: "prev ! i = pressed_in field b" by fastforce
  from Cons.prems(4) have c0: "currentStates s ! i = pressed_in field b" by fastforce
  have same: "s\<lparr> currentStates := (currentStates s)[i := pressed_in field b] \<rparr> = s"
    using c0 [symmetric] by simp
  have p: "\<forall>j < length bs. prev ! (Suc i + j) = pressed_in field (bs ! j)"
    using Cons.prems(3) by fastforce
  have c: "\<forall>j < length bs. currentStates s ! (Suc i + j) = pressed_in field (bs ! j)"
    using Cons.prems(4) by fastforce
  have "forEach_button prev field bs (Suc i) s = (s, None)"
    using Cons.prems(1,2) by (intro Cons.IH p c) simp_all
  then show ?case
    unfolding forEach_button_step [OF i] by (simp add: p0 same)
qed

lemma registry_order:
  "map (\<lambda>b. (controller b, button b)) BUTTONS_DATA =
   concat (map (\<lambda>c. map (\<lambda>n. (c, n)) [0 ..< 5]) [1 ..< 5])"
  by (simp add: BUTTONS_DATA_def mk_button_def upt_rec)

lemma emit_frame:
  "fst (emit k v s) = s\<lparr> emitted := emitted (fst (emit k v s)), delivered := delivered (fst (emit k v s)) \<rparr>"
  by (simp add: emit_def split: prod.splits)

lemma emit_result: "snd (emit k v s) = snd (emit_listeners (ee s) k v)"
  by (simp add: emit_def split: prod.splits)

lemma emit_appends: "emitted (fst (emit k v s)) = emitted s @ [(k, v)]"
  by (simp add: emit_def split: prod.splits)

lemma emit_hid_writes: "hid_writes (fst (emit k v s)) = hid_writes s"
  by (subst emit_frame) simp

lemma forEach_button_Cons:
  "forEach_button prev field (b # bs) i s =
     (let k = (if field AND bit_mask b \<noteq> 0 then PRESS else RELEASE);
          s1 = s\<lparr> currentStates := array_set (currentStates s) i (field AND bit_mask b \<noteq> 0) \<rparr>;
          e = emit k (button_event b k) s1
      in if JBool (field AND bit_mask b \<noteq> 0) = array_get prev i
         then forEach_button prev field bs (Suc i) s1
         else if snd e = None then forEach_button prev field bs (Suc i) (fst e)
         else e)"
  by (cases "field AND bit_mask b \<noteq> 0")
     (auto simp: Let_def split: prod.splits option.splits)

lemma forEach_button_frame:
  "\<exists>cs em dl. fst (forEach_button prev field bs i s) = s\<lparr> currentStates := cs, emitted := em, delivered := dl \<rparr>"
proof (induction bs arbitrary: i s)
  case Nil
  have "s = s\<lparr> currentStates := currentStates s, emitted := emitted s, delivered := delivered s \<rparr>" by simp
  then show ?case by (metis forEach_button.simps(1) fst_conv)
next
  case (Cons b bs)
  define k where "k = (if field AND bit_mask b \<noteq> 0 then PRESS else RELEASE)"
  define s1 where "s1 = s\<lparr> currentStates := array_set (currentStates s) i (field AND bit_mask b \<noteq> 0) \<rparr>"
  define e where "e = emit k (button_event b k) s1"
  have unf: "forEach_button prev field (b # bs) i s =
     (if JBool (field AND bit_mask b \<noteq> 0) = array_get prev i
      then forEach_button prev field bs (Suc i) s1
      else if snd e = None then forEach_button prev field bs (Suc i) (fst e) else e)"
    unfolding forEach_button_Cons k_def s1_def e_def Let_def by (rule refl)
  have fe: "fst e = s\<lparr> currentStates := currentStates s1, emitted := emitted (fst e), delivered := delivered (fst e) \<rparr>"
    unfolding e_def by (subst emit_frame) (simp add: s1_def)
  from Cons.IH [of "Suc i" s1] obtain cs em dl where
    a: "fst (forEach_button prev field bs (Suc i) s1) = s\<lparr> currentStates := cs, emitted := em, delivered := dl \<rparr>"
    unfolding s1_def by auto
  from Cons.IH [of "Suc i" "fst e"] obtain cs' em' dl' where
    "fst (forEach_button prev field bs (Suc i) (fst e)) = (fst e)\<lparr> currentStates := cs', emitted := em', delivered := dl' \<rparr>"
    by blast
  then have b: "fst (forEach_button prev field bs (Suc i) (fst e)) = s\<lparr> currentStates := cs', emitted := em', delivered := dl' \<rparr>"
    by (subst (asm) (2) fe) simp
  show ?case
    unfolding unf using a b fe by (auto split: if_splits)
qed

lemma on_data_frame:
  "\<exists>cs em dl. fst (on_data data s) = s\<lparr> currentStates := cs, emitted := em, delivered := dl \<rparr>"
proof -
  have "s = s\<lparr> currentStates := currentStates s, emitted := emitted s, delivered := delivered s \<rparr>" by simp
  then have id: "\<exists>cs em dl. s = s\<lparr> currentStates := cs, emitted := em, delivered := dl \<rparr>" by blast
  show ?thesis
    using id forEach_button_frame [of "currentStates s" _ BUTTONS_DATA 0 s]
    by (auto simp: on_data_def split: sum.splits)
qed

lemma on_data_quiet_kept: "quiet s \<Longrightarrow> quiet (fst (on_data data s))"
  using on_data_frame [of data s] by (auto simp: quiet_def)

text \<open>
  C3. A report of at least 5 bytes is decoded to the little-endian 16-bit value at
  offset 2 or-ed with the byte at offset 4 shifted left by 16, and the listener runs the
  button loop on that field. A report of fewer than 5 bytes is dropped: the session is
  left exactly as it was (stored states, emitted events and everything else), and
  nothing is thrown.
\<close>

theorem report_decoding:
  "(5 \<le> length data \<longrightarrow>
      pressedBits data = Inr (spec_field data) \<and>
      on_data data s = forEach_button (currentStates s) (spec_field data) BUTTONS_DATA 0 s) \<and>
   (length data < 5 \<longrightarrow> on_data data s = (s, None))"
  by (simp add: on_data_def pressedBits_spec)

theorem report_decoding_witness:
  "5 \<le> length [0, 0, 0x34, 0x12, 0xAB :: 8 word] \<and>
   pressedBits [0, 0, 0x34, 0x12, 0xAB] = Inr 0xAB1234 \<and>
   length [0, 0, 1 :: 8 word] < 5 \<and>
   on_data [0, 0, 1] Buzzer = (Buzzer, None)"
  using report_decoding [of "[0, 0, 0x34, 0x12, 0xAB]" Buzzer]
        report_decoding [of "[0, 0, 1]" Buzzer]
  by (simp add: spec_field_def little_endian16_def)

section \<open>Properties of the event emitter\<close>

lemma call_listeners_all:
  "\<forall>h \<in> set hs. snd (run_handler h v) = None \<Longrightarrow> call_listeners hs v = (called v hs, None)"
  by (induction hs) (auto simp: called_def split: prod.splits option.splits)

lemma call_listeners_stop:
  "\<forall>g \<in> set pre. snd (run_handler g v) = None \<Longrightarrow> snd (run_handler h v) = Some e \<Longrightarrow>
   call_listeners (pre @ h # post) v = (called v (pre @ [h]), Some e)"
  by (induction pre) (auto simp: called_def split: prod.splits option.splits)

lemma formatEvent_button:
  "formatEvent (button_event b k) (JStr (EVENTS k')) = Inr (formatted b k')"
  by (cases k') (simp_all add: formatEvent_def button_event_def formatted_def)

lemma type_button: "get_prop (button_event b k) ''type'' = Inr (JStr (EVENTS k))"
  by (simp add: button_event_def)

lemma run_handler_button:
  "api_handler k h \<Longrightarrow> k = PRESS \<or> k = RELEASE \<Longrightarrow>
   run_handler h (button_event b k) = invoke (handler_callback h) (formatted b k)"
  using formatEvent_button [of b k PRESS] formatEvent_button [of b k RELEASE]
  by (cases h) (auto simp: type_button)

lemma call_listeners_button:
  "\<forall>h \<in> set hs. api_handler k h \<Longrightarrow> k = PRESS \<or> k = RELEASE \<Longrightarrow>
   \<forall>d \<in> set (fst (call_listeners hs (button_event b k))). snd d = formatted b k"
proof (induction hs)
  case Nil
  then show ?case by simp
next
  case (Cons h hs)
  then have "run_handler h (button_event b k) = invoke (handler_callback h) (formatted b k)"
    by (simp add: run_handler_button)
  with Cons show ?case
    by (auto simp: invoke_def split: prod.splits option.splits)
qed

lemma consumer_event_formatted:
  "b \<in> set BUTTONS_DATA \<Longrightarrow> consumer_event (formatted b k)"
  by (auto simp: BUTTONS_DATA_def mk_button_def consumer_event_def formatted_def)


lemma emit_delivered:
  "delivered (fst (emit k v s)) = delivered s @ fst (emit_listeners (ee s) k v)"
  by (simp add: emit_def split: prod.splits)

lemma emit_button_deliveries:
  assumes "api_listeners s" and "k = PRESS \<or> k = RELEASE" and "b \<in> set BUTTONS_DATA"
  shows "\<forall>d \<in> set (fst (emit_listeners (ee s) k (button_event b k))). consumer_event (snd d)"
proof -
  from assms(1,2) have "\<forall>h \<in> set (ee s k). api_handler k h"
    by (auto simp: api_listeners_def)
  from call_listeners_button [OF this assms(2), of b] assms(2,3) show ?thesis
    by (auto simp: emit_listeners_def consumer_event_formatted)
qed

lemma forEach_button_deliveries:
  "api_listeners s \<Longrightarrow> set bs \<subseteq> set BUTTONS_DATA \<Longrightarrow>
   \<exists>ds. delivered (fst (forEach_button prev field bs i s)) = delivered s @ ds \<and>
        (\<forall>d \<in> set ds. consumer_event (snd d))"
proof (induction bs arbitrary: i s)
  case Nil
  then show ?case by simp
next
  case (Cons b bs)
  define k where "k = (if field AND bit_mask b \<noteq> 0 then PRESS else RELEASE)"
  define s1 where "s1 = s\<lparr> currentStates := array_set (currentStates s) i (field AND bit_mask b \<noteq> 0) \<rparr>"
  define e where "e = emit k (button_event b k) s1"
  have unf: "forEach_button prev field (b # bs) i s =
     (if JBool (field AND bit_mask b \<noteq> 0) = array_get prev i
      then forEach_button prev field bs (Suc i) s1
      else if snd e = None then forEach_button prev field bs (Suc i) (fst e) else e)"
    unfolding forEach_button_Cons k_def s1_def e_def Let_def by (rule refl)
  have k: "k = PRESS \<or> k = RELEASE" by (simp add: k_def)
  from Cons.prems have b: "b \<in> set BUTTONS_DATA" and bs: "set bs \<subseteq> set BUTTONS_DATA" by simp_all
  have a1: "api_listeners s1" using Cons.prems(1) by (simp add: api_listeners_def s1_def)
  have "ee (fst e) = ee s1" unfolding e_def by (subst emit_frame) simp
  with a1 have a2: "api_listeners (fst e)" by (simp add: api_listeners_def)
  define d1 where "d1 = fst (emit_listeners (ee s1) k (button_event b k))"
  have de: "delivered (fst e) = delivered s @ d1"
    unfolding e_def d1_def emit_delivered by (simp add: s1_def)
  have d1: "\<forall>d \<in> set d1. consumer_event (snd d)"
    unfolding d1_def by (rule emit_button_deliveries [OF a1 k b])
  from Cons.IH [OF a1 bs, of "Suc i"] obtain ds where
    A: "delivered (fst (forEach_button prev field bs (Suc i) s1)) = delivered s @ ds"
       "\<forall>d \<in> set ds. consumer_event (snd d)"
    by (auto simp: s1_def)
  from Cons.IH [OF a2 bs, of "Suc i"] obtain ds' where
    B: "delivered (fst (forEach_button prev field bs (Suc i) (fst e))) = delivered s @ d1 @ ds'"
       "\<forall>d \<in> set ds'. consumer_event (snd d)"
    by (auto simp: de)
  from B d1 have B': "\<forall>d \<in> set (d1 @ ds'). consumer_event (snd d)" by auto
  show ?case
    unfolding unf using A B(1) B' de d1 by (auto split: if_splits)
qed

lemma on_data_deliveries:
  assumes "api_listeners s"
  shows "\<exists>ds. delivered (fst (on_data data s)) = delivered s @ ds \<and>
        (\<forall>d \<in> set ds. consumer_event (snd d))"
  using forEach_button_deliveries [OF assms subset_refl]
  by (auto simp: on_data_def split: sum.splits)

text \<open>
  C8, as stated, fails. With two press listeners of which the first throws, a publish
  delivers to the first only and the exception leaves \<open>emit\<close>.
\<close>

theorem listener_isolation_counterexample:
  "snd (emit PRESS (button_event (BUTTONS_DATA ! 0) PRESS) two_listeners) = Some (Error ''listener failed'') \<and>
   map fst (delivered (fst (emit PRESS (button_event (BUTTONS_DATA ! 0) PRESS) two_listeners))) = [1]"
  by (simp add: two_listeners_def ee_on_def Buzzer_def emit_def emit_listeners_def formatEvent_def
        button_event_def invoke_def throws_def returns_def)

text \<open>
  C8, amended. A publish calls the listeners in subscription order up to and including
  the first one that throws; none after it is called, and its exception leaves the
  publish. When no listener throws, every listener is called, in order.
\<close>

theorem listeners_until_first_throw:
  "(ee s k = pre @ h # post \<and> (\<forall>g \<in> set pre. snd (run_handler g v) = None) \<and>
      snd (run_handler h v) = Some e \<longrightarrow>
      snd (emit k v s) = Some e \<and>
      delivered (fst (emit k v s)) = delivered s @ called v (pre @ [h])) \<and>
   (ee s k \<noteq> [] \<and> (\<forall>g \<in> set (ee s k). snd (run_handler g v) = None) \<longrightarrow>
      snd (emit k v s) = None \<and>
      delivered (fst (emit k v s)) = delivered s @ called v (ee s k))"
  by (auto simp: emit_def emit_listeners_def call_listeners_all call_listeners_stop
           split: prod.splits)

theorem listeners_until_first_throw_witness:
  "snd (emit PRESS (button_event (BUTTONS_DATA ! 0) PRESS) two_listeners) = Some (Error ''listener failed'') \<and>
   delivered (fst (emit PRESS (button_event (BUTTONS_DATA ! 0) PRESS) two_listeners)) =
     [(1, formatted (BUTTONS_DATA ! 0) PRESS)] \<and>
   snd (emit PRESS (button_event (BUTTONS_DATA ! 0) PRESS) one_listener) = None \<and>
   delivered (fst (emit PRESS (button_event (BUTTONS_DATA ! 0) PRESS) one_listener)) =
     [(1, formatted (BUTTONS_DATA ! 0) PRESS)]"
proof -
  let ?v = "button_event (BUTTONS_DATA ! 0) PRESS"
  let ?h1 = "PressHandler (1, throws)"
  let ?h2 = "PressHandler (2, returns)"
  let ?h = "PressHandler (1, returns)"
  let ?e = "Error ''listener failed''"
  have t: "ee two_listeners PRESS = [] @ ?h1 # [?h2]"
    by (simp add: two_listeners_def ee_on_def Buzzer_def)
  have o: "ee one_listener PRESS = [] @ ?h # []" and o': "ee one_listener PRESS \<noteq> []"
    by (simp_all add: one_listener_def ee_on_def Buzzer_def)
  have r: "run_handler ?h ?v = ([(1, formatted (BUTTONS_DATA ! 0) PRESS)], None)"
    using run_handler_button [of PRESS ?h "BUTTONS_DATA ! 0"]
    by (simp add: invoke_def returns_def)
  have r1: "run_handler ?h1 ?v = ([(1, formatted (BUTTONS_DATA ! 0) PRESS)], Some ?e)"
    using run_handler_button [of PRESS ?h1 "BUTTONS_DATA ! 0"]
    by (simp add: invoke_def throws_def)
  have q: "\<forall>g \<in> set (ee one_listener PRESS). snd (run_handler g ?v) = None"
    unfolding o using r by simp
  have n: "\<forall>g \<in> set []. snd (run_handler g ?v) = None"
    by simp
  have s1: "snd (run_handler ?h1 ?v) = Some ?e"
    unfolding r1 by simp
  have d1: "delivered one_listener = []" and d2: "delivered two_listeners = []"
    by (simp_all add: one_listener_def two_listeners_def ee_on_def Buzzer_def)
  have c1: "called ?v [?h1] = [(1, formatted (BUTTONS_DATA ! 0) PRESS)]"
    unfolding called_def list.map r1 by simp
  have c: "called ?v (ee one_listener PRESS) = [(1, formatted (BUTTONS_DATA ! 0) PRESS)]"
    unfolding called_def o append_Nil list.map r by simp
  from listeners_until_first_throw [of two_listeners PRESS "[]" ?h1 "[?h2]" ?v ?e] t n s1
  have "snd (emit PRESS ?v two_listeners) = Some ?e \<and>
        delivered (fst (emit PRESS ?v two_listeners)) = delivered two_listeners @ called ?v ([] @ [?h1])"
    by blast
  moreover
  from listeners_until_first_throw [of one_listener PRESS "[]" ?h "[]" ?v ?e] o' q
  have "snd (emit PRESS ?v one_listener) = None \<and>
        delivered (fst (emit PRESS ?v one_listener)) = delivered one_listener @ called ?v (ee one_listener PRESS)"
    by blast
  ultimately show ?thesis
    unfolding d1 d2 append_Nil c1 c by blast
qed

lemma api_listeners_one_listener: "api_listeners one_listener"
  by (simp add: api_listeners_def one_listener_def ee_on_def Buzzer_def)

text \<open>
  C6, as stated, fails on the key of the name. The object that \<open>formatEvent\<close> builds
  carries the button's name under \<open>Name\<close>; reading \<open>name\<close> from what a press
  listener receives gives \<open>undefined\<close>.
\<close>

theorem consumer_event_name_counterexample:
  "delivered (fst (emit PRESS (button_event (BUTTONS_DATA ! 0) PRESS) one_listener)) =
     [(1, JObj [(''controller'', JNum 1), (''button'', JNum 0), (''Name'', JStr ''C1_RED''),
                (''color'', JStr ''red''), (''pressed'', JBool True), (''state'', JStr ''pressed'')])] \<and>
   get_prop (JObj [(''controller'', JNum 1), (''button'', JNum 0), (''Name'', JStr ''C1_RED''),
                   (''color'', JStr ''red''), (''pressed'', JBool True), (''state'', JStr ''pressed'')])
            ''name'' = Inr JUndefined"
  by (simp add: one_listener_def ee_on_def Buzzer_def emit_def emit_listeners_def formatEvent_def
        button_event_def invoke_def returns_def BUTTONS_DATA_def mk_button_def)

text \<open>
  C6, amended. A handler that \<open>onPress\<close>, \<open>onRelease\<close> or \<open>onChange\<close> registered,
  called with the event the data listener emits for a button of the registry, gives its
  callback the object with the keys controller, button, Name, color, pressed and state:
  controller from 1 to 4, button from 0 to 4, pressed true and state \<open>pressed\<close> for a
  press, pressed false and state \<open>released\<close> for a release. In a session whose
  listeners were registered by the public operations, everything the data listener
  delivers while it handles a report has that shape.
\<close>

theorem button_event_delivered:
  "(api_handler k h \<and> (k = PRESS \<or> k = RELEASE) \<and> b \<in> set BUTTONS_DATA \<longrightarrow>
      fst (run_handler h (button_event b k)) = [(fst (handler_callback h), formatted b k)] \<and>
      consumer_event (formatted b k)) \<and>
   (api_listeners s \<longrightarrow>
      take (length (delivered s)) (delivered (fst (on_data data s))) = delivered s \<and>
      list_all (\<lambda>d. consumer_event (snd d))
        (drop (length (delivered s)) (delivered (fst (on_data data s)))))"
proof -
  have "fst (run_handler h (button_event b k)) = [(fst (handler_callback h), formatted b k)]"
    if "api_handler k h" "k = PRESS \<or> k = RELEASE"
    using run_handler_button [OF that] by (simp add: invoke_def)
  moreover
  have "take (length (delivered s)) (delivered (fst (on_data data s))) = delivered s \<and>
        list_all (\<lambda>d. consumer_event (snd d))
          (drop (length (delivered s)) (delivered (fst (on_data data s))))"
    if "api_listeners s"
    using on_data_deliveries [OF that, of data] by (auto simp: list_all_iff)
  ultimately show ?thesis
    using consumer_event_formatted by blast
qed

theorem button_event_delivered_witness:
  "api_handler RELEASE (ChangeHandler (1, returns)) \<and>
   BUTTONS_DATA ! 6 \<in> set BUTTONS_DATA \<and>
   fst (run_handler (ChangeHandler (1, returns)) (button_event (BUTTONS_DATA ! 6) RELEASE)) =
     [(1, JObj [(''controller'', JNum 2), (''button'', JNum 1), (''Name'', JStr ''C2_BLUE''),
                (''color'', JStr ''blue''), (''pressed'', JBool False), (''state'', JStr ''released'')])] \<and>
   api_listeners one_listener \<and>
   list_all (\<lambda>d. consumer_event (snd d))
     (drop (length (delivered one_listener)) (delivered (fst (on_data [0, 0, 1, 0, 0] one_listener))))"
proof -
  have a: "api_handler RELEASE (ChangeHandler (1, returns))" by simp
  have b: "BUTTONS_DATA ! 6 \<in> set BUTTONS_DATA" by (simp add: BUTTONS_DATA_def)
  have f: "formatted (BUTTONS_DATA ! 6) RELEASE =
     JObj [(''controller'', JNum 2), (''button'', JNum 1), (''Name'', JStr ''C2_BLUE''),
           (''color'', JStr ''blue''), (''pressed'', JBool False), (''state'', JStr ''released'')]"
    by (simp add: formatted_def BUTTONS_DATA_def mk_button_def)
  from button_event_delivered [of RELEASE "ChangeHandler (1, returns)" "BUTTONS_DATA ! 6"
         one_listener "[0, 0, 1, 0, 0]"] a b api_listeners_one_listener
  show ?thesis
    unfolding f by simp
qed

section \<open>Properties of the LED operations\<close>

lemmas env_defs = plugged_def plugged_deaf_def unplugged_def dongle_def dongle_iface_def
  in_endpoint_def accepts_def rejects_def returns_def throws_def

lemmas op_defs = ensureReady_def openAndClaim_def openAndClaim_try_def emit_def emit_listeners_def
  setup_resume_def setupBuzzListener_resume_def setupBuzzListener_try_def findInterruptEndpoint_def
  start_animation_def setup_failed_def settle_def fire_timer_def privateSetLeds_def hid_write_def
  setLeds_def onError_def onPress_def onReady_def ee_on_def invoke_def Buzzer_def Let_def

lemma led_byte_bool: "led_byte (JBool p) = (if p then 0xFF else 0x00)"
  by (simp add: led_byte_def)

lemma privateSetLeds_bool:
  "privateSetLeds (JBool p1) (JBool p2) (JBool p3) (JBool p4) s =
     (case hidDevice s of
        None \<Rightarrow> (s, None)
      | Some h \<Rightarrow>
          (case write_error h (primary_report p1 p2 p3 p4) of
             None \<Rightarrow> (s\<lparr> hid_writes := hid_writes s @ [primary_report p1 p2 p3 p4] \<rparr>, None)
           | Some err \<Rightarrow>
               (case write_error h (fallback_report p1 p2 p3 p4) of
                  None \<Rightarrow> (s\<lparr> hid_writes := hid_writes s @
                               [primary_report p1 p2 p3 p4, fallback_report p1 p2 p3 p4] \<rparr>, None)
                | Some innerErr \<Rightarrow>
                    emit ERROR (JStr ''Failed to set LEDs'')
                      (s\<lparr> hid_writes := hid_writes s @
                           [primary_report p1 p2 p3 p4, fallback_report p1 p2 p3 p4] \<rparr>))))"
  unfolding privateSetLeds_def hid_write_def led_byte_bool Let_def
    primary_report_def [symmetric] fallback_report_def [symmetric]
  by (simp split: option.splits split del: if_split)

text \<open>
  C7, as stated, fails on its last part. On a ready session whose HID channel rejects
  both reports and that has no error listener, the \<open>emit\<close> of the failure throws, and
  the exception leaves \<open>privateSetLeds\<close>.
\<close>

theorem led_failure_thrown_counterexample:
  "ee deaf_ready ERROR = [] \<and> isReady deaf_ready \<and>
   snd (privateSetLeds (JBool True) (JBool False) (JBool False) (JBool False) deaf_ready) =
     Some (Error (''Unhandled error. ('' @ [CHR 0x27] @ ''Failed to set LEDs'' @ [CHR 0x27] @ '')''))"
  by (simp add: deaf_ready_def env_defs op_defs)

text \<open>
  C7, amended. Without a HID handle nothing is written and the call returns. With one,
  the 8-byte primary report is written first; the 6-byte fallback report is written
  exactly when the primary write is rejected; when the fallback is rejected too, nothing
  more is written and one Error event is emitted. The call returns normally in every
  case but the last; in the last it returns normally when an Error listener is
  registered and no Error listener throws, and with no Error listener the \<open>emit\<close>
  throws.
\<close>

theorem led_write:
  "(hidDevice s = None \<longrightarrow>
      privateSetLeds (JBool p1) (JBool p2) (JBool p3) (JBool p4) s = (s, None)) \<and>
   (hidDevice s = Some h \<and> write_error h (primary_report p1 p2 p3 p4) = None \<longrightarrow>
      privateSetLeds (JBool p1) (JBool p2) (JBool p3) (JBool p4) s =
        (s\<lparr> hid_writes := hid_writes s @ [primary_report p1 p2 p3 p4] \<rparr>, None)) \<and>
   (hidDevice s = Some h \<and> write_error h (primary_report p1 p2 p3 p4) \<noteq> None \<and>
    write_error h (fallback_report p1 p2 p3 p4) = None \<longrightarrow>
      privateSetLeds (JBool p1) (JBool p2) (JBool p3) (JBool p4) s =
        (s\<lparr> hid_writes := hid_writes s @
             [primary_report p1 p2 p3 p4, fallback_report p1 p2 p3 p4] \<rparr>, None)) \<and>
   (hidDevice s = Some h \<and> write_error h (primary_report p1 p2 p3 p4) \<noteq> None \<and>
    write_error h (fallback_report p1 p2 p3 p4) \<noteq> None \<longrightarrow>
      hid_writes (fst (privateSetLeds (JBool p1) (JBool p2) (JBool p3) (JBool p4) s)) =
        hid_writes s @ [primary_report p1 p2 p3 p4, fallback_report p1 p2 p3 p4] \<and>
      emitted (fst (privateSetLeds (JBool p1) (JBool p2) (JBool p3) (JBool p4) s)) =
        emitted s @ [(ERROR, JStr ''Failed to set LEDs'')] \<and>
      (ee s ERROR \<noteq> [] \<and>
       (\<forall>g \<in> set (ee s ERROR). snd (run_handler g (JStr ''Failed to set LEDs'')) = None) \<longrightarrow>
         snd (privateSetLeds (JBool p1) (JBool p2) (JBool p3) (JBool p4) s) = None) \<and>
      (ee s ERROR = [] \<longrightarrow>
         snd (privateSetLeds (JBool p1) (JBool p2) (JBool p3) (JBool p4) s) =
           Some (unhandled_error (JStr ''Failed to set LEDs''))))"
  unfolding privateSetLeds_bool
  by (auto simp: emit_result emit_appends emit_hid_writes emit_listeners_def call_listeners_all
           split: option.splits)

theorem led_write_witness:
  "hidDevice ready = Some \<lparr> write_error = accepts, hid_close_error = None \<rparr> \<and>
   privateSetLeds (JBool True) (JBool False) (JBool False) (JBool False) ready =
     (ready\<lparr> hid_writes := hid_writes ready @ [[0, 0, 0xFF, 0, 0, 0, 0, 0]] \<rparr>, None) \<and>
   hidDevice deaf_heard = Some \<lparr> write_error = rejects, hid_close_error = None \<rparr> \<and>
   ee deaf_heard ERROR = [Plain (1, returns)] \<and>
   hid_writes (fst (privateSetLeds (JBool True) (JBool False) (JBool False) (JBool False) deaf_heard)) =
     hid_writes deaf_heard @ [[0, 0, 0xFF, 0, 0, 0, 0, 0], [0, 0, 0xFF, 0, 0, 0]] \<and>
   emitted (fst (privateSetLeds (JBool True) (JBool False) (JBool False) (JBool False) deaf_heard)) =
     emitted deaf_heard @ [(ERROR, JStr ''Failed to set LEDs'')] \<and>
   snd (privateSetLeds (JBool True) (JBool False) (JBool False) (JBool False) deaf_heard) = None"
proof -
  let ?P = "primary_report True False False False"
  let ?F = "fallback_report True False False False"
  let ?good = "\<lparr> write_error = accepts, hid_close_error = None \<rparr>"
  let ?bad = "\<lparr> write_error = rejects, hid_close_error = None \<rparr>"
  have h1: "hidDevice ready = Some ?good"
    by (simp add: ready_def env_defs op_defs)
  have h2: "hidDevice deaf_heard = Some ?bad"
    by (simp add: deaf_heard_def env_defs op_defs)
  have l: "ee deaf_heard ERROR = [Plain (1, returns)]"
    by (simp add: deaf_heard_def env_defs op_defs)
  have p: "?P = [0, 0, 0xFF, 0, 0, 0, 0, 0]" and f: "?F = [0, 0, 0xFF, 0, 0, 0]"
    by (simp_all add: primary_report_def fallback_report_def)
  have a: "write_error ?good ?P = None"
    by (simp add: accepts_def)
  have r: "write_error ?bad ?P \<noteq> None" "write_error ?bad ?F \<noteq> None"
    by (simp_all add: rejects_def)
  have q: "ee deaf_heard ERROR \<noteq> [] \<and>
      (\<forall>g \<in> set (ee deaf_heard ERROR). snd (run_handler g (JStr ''Failed to set LEDs'')) = None)"
    unfolding l by (simp add: invoke_def returns_def)
  from led_write [of ready True False False False ?good] h1 a
  have one: "privateSetLeds (JBool True) (JBool False) (JBool False) (JBool False) ready =
      (ready\<lparr> hid_writes := hid_writes ready @ [?P] \<rparr>, None)"
    by blast
  from led_write [of deaf_heard True False False False ?bad] h2 r q
  have two: "hid_writes (fst (privateSetLeds (JBool True) (JBool False) (JBool False) (JBool False) deaf_heard)) =
        hid_writes deaf_heard @ [?P, ?F] \<and>
      emitted (fst (privateSetLeds (JBool True) (JBool False) (JBool False) (JBool False) deaf_heard)) =
        emitted deaf_heard @ [(ERROR, JStr ''Failed to set LEDs'')] \<and>
      snd (privateSetLeds (JBool True) (JBool False) (JBool False) (JBool False) deaf_heard) = None"
    by blast
  from one two h1 h2 l show ?thesis
    unfolding p f by blast
qed

text \<open>
  C9. Whatever is not an array of exactly four elements makes \<open>setLedsarray\<close> throw
  the CustomError of an invalid array, with the session exactly as it was: no report
  written, no setup started, nothing emitted.
\<close>

theorem setLedsarray_invalid:
  "\<not> is_array4 players \<Longrightarrow>
   setLedsarray env players s = (s, Throws (CustomError ''Invalid array: must be boolean[4]'' None))"
  by (auto simp: setLedsarray_def is_array4_def split: js_value.splits list.splits)

theorem setLedsarray_invalid_witness:
  "\<not> is_array4 (JArr [JBool True, JBool False]) \<and>
   setLedsarray unplugged (JArr [JBool True, JBool False]) Buzzer =
     (Buzzer, Throws (CustomError ''Invalid array: must be boolean[4]'' None)) \<and>
   \<not> is_array4 (JStr ''1111'') \<and>
   setLedsarray plugged (JStr ''1111'') ready =
     (ready, Throws (CustomError ''Invalid array: must be boolean[4]'' None))"
proof -
  have a: "\<not> is_array4 (JArr [JBool True, JBool False])" and b: "\<not> is_array4 (JStr ''1111'')"
    by (simp_all add: is_array4_def)
  from setLedsarray_invalid [OF a, of unplugged Buzzer] setLedsarray_invalid [OF b, of plugged ready] a b
  show ?thesis by blast
qed

section \<open>Properties of readiness\<close>


lemma lifecycle_updates [simp]:
  "lifecycle (s\<lparr> device := a \<rparr>) = lifecycle s"
  "lifecycle (s\<lparr> iface := b \<rparr>) = lifecycle s"
  "lifecycle (s\<lparr> endpoint := c \<rparr>) = lifecycle s"
  "lifecycle (s\<lparr> hidDevice := d \<rparr>) = lifecycle s"
  "lifecycle (s\<lparr> currentStates := e \<rparr>) = lifecycle s"
  "lifecycle (s\<lparr> ee := f \<rparr>) = lifecycle s"
  "lifecycle (s\<lparr> reactions := g \<rparr>) = lifecycle s"
  "lifecycle (s\<lparr> listening := h \<rparr>) = lifecycle s"
  "lifecycle (s\<lparr> emitted := i \<rparr>) = lifecycle s"
  "lifecycle (s\<lparr> delivered := j \<rparr>) = lifecycle s"
  "lifecycle (s\<lparr> hid_writes := k \<rparr>) = lifecycle s"
  by (simp_all add: lifecycle_def)



















lemma setLedsarray_bad:
  "\<not> is_array4 players \<Longrightarrow> fst (setLedsarray env players s) = s"
  by (auto simp: setLedsarray_def is_array4_def split: js_value.splits list.splits)


















section \<open>Properties of close\<close>





lemma on_data_states:
  "5 \<le> length data \<Longrightarrow> length (currentStates s) = length BUTTONS_DATA \<Longrightarrow>
   snd (on_data data s) = None \<Longrightarrow>
   currentStates (fst (on_data data s)) = map (pressed_in (spec_field data)) BUTTONS_DATA"
proof -
  assume len: "5 \<le> length data" and st: "length (currentStates s) = length BUTTONS_DATA"
    and n: "snd (on_data data s) = None"
  from n have "on_data data s = (fst (on_data data s), None)" by (simp add: prod_eq_iff)
  with len have "forEach_button (currentStates s) (spec_field data) BUTTONS_DATA 0 s =
      (fst (on_data data s), None)"
    by (simp add: on_data_def pressedBits_spec)
  from forEach_button_normal [OF this] st show ?thesis by simp
qed

lemma ready_value:
  "ready = Buzzer\<lparr> device := Some dongle, iface := Some dongle_iface,
     endpoint := Some in_endpoint,
     hidDevice := Some \<lparr> write_error = accepts, hid_close_error = None \<rparr>,
     isReady := True, readyPromise := Some 0, promises := [Fulfilled], listening := True,
     emitted := [(READY, JUndefined)],
     hid_writes := [primary_report True True True True, primary_report False False False False,
                    primary_report True True True True, primary_report False False False False,
                    primary_report True True True True, primary_report False False False False],
     setups := 1, ensure_log := [(False, ReturnsPromise 0)] \<rparr>"
  by (simp add: ready_def env_defs op_defs primary_report_def led_byte_def)

lemma ready_facts:
  "listening ready" "ee ready PRESS = []" "ee ready RELEASE = []"
  "currentStates ready = replicate (length BUTTONS_DATA) False"
  "clean_teardown ready" "setups ready = 1" "promises ready = [Fulfilled]"
  by (simp_all add: ready_value Buzzer_def clean_teardown_def dongle_iface_def dongle_def
        in_endpoint_def)












text \<open>
  The premise on suspended setups and timers is needed: \<open>close()\<close> cancels no timer.
  On a session closed while its animation is pending, with a clean teardown, the last
  timer of the animation sets \<open>isReady\<close> back to true, and an \<open>onPress\<close> after it
  starts no setup.
\<close>

lemma ready_timer_after_close:
  "clean_teardown animating \<and> length (timers animating) = 7 \<and> snd (close animating) = True \<and>
   \<not> isReady (fst (close animating)) \<and> isReady closed_in_animation \<and>
   setups closed_in_animation = 1 \<and>
   setups (onPress plugged (1, returns) closed_in_animation) = 1"
  by (simp add: closed_in_animation_def animating_def clean_teardown_def env_defs op_defs
        close_def release_callback_def onPress_def ee_on_def led_byte_def)

section \<open>Properties of the state tracker\<close>

text \<open>
  A listener that throws ends \<open>emit\<close>, and with it the loop over the buttons: the
  loop stops at the first button whose state changed, with the entries of the buttons
  before it as they were and those after it untouched.
\<close>

lemma emit_head_throws:
  "ee s k = h # hs \<Longrightarrow> run_handler h v = (d, Some e) \<Longrightarrow>
   emit k v s = (s\<lparr> emitted := emitted s @ [(k, v)], delivered := delivered s @ d \<rparr>, Some e)"
  by (simp add: emit_def emit_listeners_def)

lemma loop_stops:
  "i + length skip < length (currentStates s) \<Longrightarrow>
   \<forall>j < length skip. pressed_in field (skip ! j) = currentStates s ! (i + j) \<Longrightarrow>
   pressed_in field b \<noteq> currentStates s ! (i + length skip) \<Longrightarrow>
   snd (emit (if pressed_in field b then PRESS else RELEASE)
             (button_event b (if pressed_in field b then PRESS else RELEASE))
             (s\<lparr> currentStates := (currentStates s)[i + length skip := pressed_in field b] \<rparr>)) = Some e \<Longrightarrow>
   forEach_button (currentStates s) field (skip @ b # rest) i s =
     emit (if pressed_in field b then PRESS else RELEASE)
          (button_event b (if pressed_in field b then PRESS else RELEASE))
          (s\<lparr> currentStates := (currentStates s)[i + length skip := pressed_in field b] \<rparr>)"
proof (induction skip arbitrary: i)
  case Nil
  then have i: "i < length (currentStates s)" by simp
  from Nil show ?case
    unfolding append_Nil forEach_button_step [OF i i]
    by (auto split: prod.splits option.splits)
next
  case (Cons a skip)
  then have i: "i < length (currentStates s)" by simp
  from Cons.prems(2) have a: "pressed_in field a = currentStates s ! i" by fastforce
  have same: "s\<lparr> currentStates := (currentStates s)[i := currentStates s ! i] \<rparr> = s"
    by simp
  have rest: "\<forall>j < length skip. pressed_in field (skip ! j) = currentStates s ! (Suc i + j)"
    using Cons.prems(2) by fastforce
  have "forEach_button (currentStates s) field (skip @ b # rest) (Suc i) s =
      emit (if pressed_in field b then PRESS else RELEASE)
           (button_event b (if pressed_in field b then PRESS else RELEASE))
           (s\<lparr> currentStates := (currentStates s)[Suc i + length skip := pressed_in field b] \<rparr>)"
    using Cons.prems by (intro Cons.IH rest) simp_all
  then show ?case
    unfolding append_Cons forEach_button_step [OF i i] by (simp add: a same)
qed

lemma registry_split:
  "BUTTONS_DATA = [] @ BUTTONS_DATA ! 0 # tl BUTTONS_DATA"
  "BUTTONS_DATA = [BUTTONS_DATA ! 0] @ BUTTONS_DATA ! 1 # tl (tl BUTTONS_DATA)"
  by (simp_all add: BUTTONS_DATA_def)

lemma registry_head:
  "bit_mask (BUTTONS_DATA ! 0) = 1" "bit_mask (BUTTONS_DATA ! 1) = 0x10"
  "length BUTTONS_DATA = 20" "bit_mask (BUTTONS_DATA ! Suc 0) = 0x10"
  by (simp_all add: BUTTONS_DATA_def mk_button_def)

lemma thrower_handlers:
  "run_handler (PressHandler (1, throws)) (button_event b PRESS) =
     ([(1, formatted b PRESS)], Some (Error ''listener failed''))"
  "run_handler (ReleaseHandler (1, throws)) (button_event b RELEASE) =
     ([(1, formatted b RELEASE)], Some (Error ''listener failed''))"
  using run_handler_button [of PRESS "PressHandler (1, throws)" b]
        run_handler_button [of RELEASE "ReleaseHandler (1, throws)" b]
  by (simp_all add: invoke_def throws_def)

lemma press_thrower_value:
  "currentStates press_thrower = replicate 20 False"
  "ee press_thrower PRESS = [PressHandler (1, throws)]"
  "emitted press_thrower = []" "listening press_thrower"
  by (simp_all add: press_thrower_def env_defs op_defs registry_head)

text \<open>
  C4, as stated, fails. On a session whose press listener throws, the update step of a
  report that asserts C1_RED and C1_BLUE ends at C1_RED: the Press of C1_RED is the only
  transition emitted, although the bit of C1_BLUE differs from its stored entry; that
  entry is not overwritten; and processing the same report a second time emits a
  transition, the Press of C1_BLUE.
\<close>

theorem update_abandoned_counterexample:
  "listening press_thrower \<and>
   currentStates press_thrower ! 1 = False \<and>
   snd (on_data [0, 0, 0x11, 0, 0] press_thrower) = Some (Error ''listener failed'') \<and>
   emitted (fst (on_data [0, 0, 0x11, 0, 0] press_thrower)) =
     [(PRESS, button_event (BUTTONS_DATA ! 0) PRESS)] \<and>
   spec_field [0, 0, 0x11, 0, 0] AND bit_mask (BUTTONS_DATA ! 1) = 0x10 \<and>
   currentStates (fst (on_data [0, 0, 0x11, 0, 0] press_thrower)) ! 1 = False \<and>
   emitted (fst (on_data [0, 0, 0x11, 0, 0] (fst (on_data [0, 0, 0x11, 0, 0] press_thrower)))) =
     [(PRESS, button_event (BUTTONS_DATA ! 0) PRESS), (PRESS, button_event (BUTTONS_DATA ! 1) PRESS)]"
proof -
  let ?d = "[0, 0, 0x11, 0, 0] :: 8 word list"
  let ?S = "press_thrower"
  let ?e = "Error ''listener failed''"
  define b0 where "b0 = BUTTONS_DATA ! 0"
  define b1 where "b1 = BUTTONS_DATA ! 1"
  define S1 where "S1 = ?S\<lparr> currentStates := (replicate 20 False)[0 := True],
    emitted := [(PRESS, button_event b0 PRESS)], delivered := delivered ?S @ [(1, formatted b0 PRESS)] \<rparr>"
  define S2 where "S2 = S1\<lparr> currentStates := (replicate 20 False)[0 := True, 1 := True],
    emitted := [(PRESS, button_event b0 PRESS), (PRESS, button_event b1 PRESS)],
    delivered := delivered S1 @ [(1, formatted b1 PRESS)] \<rparr>"
  have f: "pressedBits ?d = Inr 0x11" and sf: "spec_field ?d = 0x11"
    by (simp_all add: pressedBits_spec spec_field_def little_endian16_def)
  have p0: "pressed_in 0x11 b0 = True" and p1: "pressed_in 0x11 b1 = True"
    by (simp_all add: pressed_in_def b0_def b1_def registry_head)
  have c0: "currentStates ?S = replicate 20 False"
    by (simp add: press_thrower_value)
  have c1: "currentStates S1 = (replicate 20 False)[0 := True]"
    and l1: "ee S1 PRESS = [PressHandler (1, throws)]"
    by (simp_all add: S1_def press_thrower_value)
  have e1: "emit (if pressed_in 0x11 b0 then PRESS else RELEASE)
      (button_event b0 (if pressed_in 0x11 b0 then PRESS else RELEASE))
      (?S\<lparr> currentStates := (currentStates ?S)[0 + length ([] :: button_data list) := pressed_in 0x11 b0] \<rparr>) =
      (S1, Some ?e)"
    unfolding p0 if_True
    by (subst emit_head_throws [OF _ thrower_handlers(1)])
       (simp_all add: press_thrower_value S1_def)
  have e2: "emit (if pressed_in 0x11 b1 then PRESS else RELEASE)
      (button_event b1 (if pressed_in 0x11 b1 then PRESS else RELEASE))
      (S1\<lparr> currentStates := (currentStates S1)[0 + length [b0] := pressed_in 0x11 b1] \<rparr>) =
      (S2, Some ?e)"
    unfolding p1 if_True
    by (subst emit_head_throws [OF _ thrower_handlers(1)])
       (simp_all add: l1 c1 S2_def, simp add: S1_def)
  have "on_data ?d ?S = forEach_button (currentStates ?S) 0x11 BUTTONS_DATA 0 ?S"
    by (simp add: on_data_def f)
  also have "\<dots> = forEach_button (currentStates ?S) 0x11 ([] @ b0 # tl BUTTONS_DATA) 0 ?S"
    unfolding b0_def
    by (rule arg_cong [where f = "\<lambda>bs. forEach_button (currentStates ?S) 0x11 bs 0 ?S"])
       (rule registry_split(1))
  also have "\<dots> = (S1, Some ?e)"
    unfolding e1 [symmetric]
  proof (rule loop_stops)
    show "0 + length ([] :: button_data list) < length (currentStates ?S)" by (simp add: c0)
    show "\<forall>j < length ([] :: button_data list). pressed_in 0x11 ([] ! j) = currentStates ?S ! (0 + j)" by simp
    show "pressed_in 0x11 b0 \<noteq> currentStates ?S ! (0 + length ([] :: button_data list))" by (simp add: c0 p0)
    show "snd (emit (if pressed_in 0x11 b0 then PRESS else RELEASE)
      (button_event b0 (if pressed_in 0x11 b0 then PRESS else RELEASE))
      (?S\<lparr> currentStates := (currentStates ?S)[0 + length ([] :: button_data list) := pressed_in 0x11 b0] \<rparr>)) = Some ?e"
      unfolding e1 by simp
  qed
  finally have r1: "on_data ?d ?S = (S1, Some ?e)" .
  have "on_data ?d S1 = forEach_button (currentStates S1) 0x11 BUTTONS_DATA 0 S1"
    by (simp add: on_data_def f)
  also have "\<dots> = forEach_button (currentStates S1) 0x11 ([b0] @ b1 # tl (tl BUTTONS_DATA)) 0 S1"
    unfolding b0_def b1_def
    by (rule arg_cong [where f = "\<lambda>bs. forEach_button (currentStates S1) 0x11 bs 0 S1"])
       (rule registry_split(2))
  also have "\<dots> = (S2, Some ?e)"
    unfolding e2 [symmetric]
  proof (rule loop_stops)
    show "0 + length [b0] < length (currentStates S1)" by (simp add: c1)
    show "\<forall>j < length [b0]. pressed_in 0x11 ([b0] ! j) = currentStates S1 ! (0 + j)" by (simp add: c1 p0)
    show "pressed_in 0x11 b1 \<noteq> currentStates S1 ! (0 + length [b0])" by (simp add: c1 p1)
    show "snd (emit (if pressed_in 0x11 b1 then PRESS else RELEASE)
      (button_event b1 (if pressed_in 0x11 b1 then PRESS else RELEASE))
      (S1\<lparr> currentStates := (currentStates S1)[0 + length [b0] := pressed_in 0x11 b1] \<rparr>)) = Some ?e"
      unfolding e2 by simp
  qed
  finally have r2: "on_data ?d S1 = (S2, Some ?e)" .
  have m: "(0x11 :: 32 word) AND bit_mask (BUTTONS_DATA ! 1) = 0x10"
    by (simp add: registry_head)
  have a: "emitted S1 = [(PRESS, button_event (BUTTONS_DATA ! 0) PRESS)]"
    and b: "currentStates S1 ! 1 = False"
    and c: "emitted S2 = [(PRESS, button_event (BUTTONS_DATA ! 0) PRESS), (PRESS, button_event (BUTTONS_DATA ! 1) PRESS)]"
    by (simp_all add: S1_def S2_def b0_def b1_def)
  have d: "listening press_thrower" "currentStates press_thrower ! 1 = False"
    by (simp_all add: press_thrower_value)
  show ?thesis
    unfolding r1 fst_conv snd_conv r2 sf using a b c d m by blast
qed

text \<open>
  C4, amended. When the listener runs to its end on a report of at least 5 bytes, no
  press or release listener throwing out of it, the events it emitted are exactly the
  transitions of the decoded field against the stored states: one per descriptor whose
  pressed bit differs from its stored entry, Press or Release accordingly, in registry
  order, all from that one run. Every stored entry is overwritten with the new value.
  Running the listener again on the same report changes nothing and emits nothing.
  Registry order is controller 1 to 4 and, within each, button 0 to 4.
\<close>

theorem state_tracker_update:
  assumes len: "5 \<le> length data"
    and st: "length (currentStates s) = length BUTTONS_DATA"
    and run: "on_data data s = (s', None)"
  shows "emitted s' = emitted s @ transitions (spec_field data) BUTTONS_DATA (currentStates s) \<and>
         currentStates s' = map (pressed_in (spec_field data)) BUTTONS_DATA \<and>
         on_data data s' = (s', None) \<and>
         map (\<lambda>b. (controller b, button b)) BUTTONS_DATA =
           concat (map (\<lambda>c. map (\<lambda>n. (c, n)) [0 ..< 5]) [1 ..< 5])"
proof -
  let ?f = "spec_field data"
  from len run have loop: "forEach_button (currentStates s) ?f BUTTONS_DATA 0 s = (s', None)"
    by (simp add: on_data_def pressedBits_spec)
  from forEach_button_normal [OF loop] st
  have em: "emitted s' = emitted s @ transitions ?f BUTTONS_DATA (currentStates s)"
    and cs: "currentStates s' = map (pressed_in ?f) BUTTONS_DATA"
    by simp_all
  have "forEach_button (currentStates s') ?f BUTTONS_DATA 0 s' = (s', None)"
    by (rule forEach_button_fixed) (simp_all add: cs)
  with len have again: "on_data data s' = (s', None)"
    by (simp add: on_data_def pressedBits_spec)
  from em cs again registry_order show ?thesis by simp
qed

text \<open>
  At the report whose field is \<open>0x12\<close>, on a fresh session: C1_BLUE (bit \<open>0x10\<close>)
  comes before C1_YELLOW (bit \<open>0x02\<close>), registry order and not bit order.
\<close>

theorem state_tracker_update_witness:
  "5 \<le> length [0, 0, 0x12, 0, 0 :: 8 word] \<and>
   length (currentStates Buzzer) = length BUTTONS_DATA \<and>
   snd (on_data [0, 0, 0x12, 0, 0] Buzzer) = None \<and>
   emitted (fst (on_data [0, 0, 0x12, 0, 0] Buzzer)) =
     [(PRESS, button_event (BUTTONS_DATA ! 1) PRESS), (PRESS, button_event (BUTTONS_DATA ! 4) PRESS)]"
proof -
  let ?d = "[0, 0, 0x12, 0, 0] :: 8 word list"
  have len: "5 \<le> length ?d" by simp
  have st: "length (currentStates Buzzer) = length BUTTONS_DATA" by (simp add: Buzzer_def)
  have n: "snd (on_data ?d Buzzer) = None" by (rule on_data_quiet [OF quiet_Buzzer])
  then have run: "on_data ?d Buzzer = (fst (on_data ?d Buzzer), None)" by (simp add: prod_eq_iff)
  have f: "spec_field ?d = 0x12" by (simp add: spec_field_def little_endian16_def)
  have tr: "transitions 0x12 BUTTONS_DATA (currentStates Buzzer) =
     [(PRESS, button_event (BUTTONS_DATA ! 1) PRESS), (PRESS, button_event (BUTTONS_DATA ! 4) PRESS)]"
    by (simp add: transitions_def transition_def pressed_in_def BUTTONS_DATA_def mk_button_def Buzzer_def)
  have e: "emitted Buzzer = []" by (simp add: Buzzer_def)
  from state_tracker_update [OF len st run] len st n show ?thesis
    by (simp only: f tr e append_Nil simp_thms)
qed

lemma onRelease_ready:
  "isReady s \<Longrightarrow> onRelease env cb s =
     s\<lparr> ensure_log := ensure_log s @ [(True, ReturnsUndefined)],
        reactions := reactions s @ [CatchEmit ReturnsUndefined],
        ee := (ee s)(RELEASE := ee s RELEASE @ [ReleaseHandler cb]) \<rparr>"
  by (simp add: onRelease_def ensureReady_def ee_on_def)

lemma release_thrower_value:
  "currentStates release_thrower = map (pressed_in 0x11) BUTTONS_DATA"
  "ee release_thrower RELEASE = [ReleaseHandler (1, throws)]"
  "listening release_thrower"
proof -
  let ?d = "[0, 0, 0x11, 0, 0] :: 8 word list"
  let ?p = "fst (on_data ?d ready)"
  have q: "quiet ready"
    by (simp add: quiet_def ready_facts)
  have sf: "spec_field ?d = 0x11"
    by (simp add: spec_field_def little_endian16_def)
  have cs: "currentStates ?p = map (pressed_in (spec_field ?d)) BUTTONS_DATA"
    by (rule on_data_states) (simp_all add: ready_facts on_data_quiet [OF q])
  from on_data_frame [of ?d ready] obtain cs' em dl where
    f: "?p = ready\<lparr> currentStates := cs', emitted := em, delivered := dl \<rparr>"
    by blast
  have r: "isReady ?p" "ee ?p RELEASE = []" "listening ?p"
    unfolding f by (simp_all add: ready_facts, simp add: ready_value)
  have rt: "release_thrower = onRelease plugged (1, throws) ?p"
    by (simp add: release_thrower_def ready_facts)
  show "currentStates release_thrower = map (pressed_in 0x11) BUTTONS_DATA"
    unfolding rt onRelease_ready [OF r(1)] using cs sf by simp
  show "ee release_thrower RELEASE = [ReleaseHandler (1, throws)]"
    unfolding rt onRelease_ready [OF r(1)] using r(2) by simp
  show "listening release_thrower"
    unfolding rt onRelease_ready [OF r(1)] using r(3) by simp
qed

text \<open>
  C10, as stated, fails. The ready session stores C1_RED and C1_BLUE as pressed when
  \<open>onRelease\<close> registers a callback that throws. The report that asserts no button
  then ends at the Release of C1_RED, with the exception of the callback: C1_BLUE stays
  stored as pressed, a flag that this report, the most recent one, does not assert.
\<close>

theorem stale_pressed_flag_counterexample:
  "listening release_thrower \<and>
   snd (on_data [0, 0, 0, 0, 0] release_thrower) = Some (Error ''listener failed'') \<and>
   spec_field [0, 0, 0, 0, 0] AND bit_mask (BUTTONS_DATA ! 1) = 0 \<and>
   currentStates (fst (on_data [0, 0, 0, 0, 0] release_thrower)) ! 1 = True"
proof -
  let ?d = "[0, 0, 0, 0, 0] :: 8 word list"
  let ?S = "release_thrower"
  let ?e = "Error ''listener failed''"
  define b0 where "b0 = BUTTONS_DATA ! 0"
  define S1 where "S1 = ?S\<lparr> currentStates := (currentStates ?S)[0 := False],
    emitted := emitted ?S @ [(RELEASE, button_event b0 RELEASE)],
    delivered := delivered ?S @ [(1, formatted b0 RELEASE)] \<rparr>"
  have f: "pressedBits ?d = Inr 0" and sf: "spec_field ?d = 0"
    by (simp_all add: pressedBits_spec spec_field_def little_endian16_def)
  have p0: "pressed_in 0 b0 = False"
    by (simp add: pressed_in_def)
  have c0: "currentStates ?S ! 0 = True" "currentStates ?S ! 1 = True"
    "length (currentStates ?S) = 20"
    by (simp_all add: release_thrower_value registry_head pressed_in_def)
  have e1: "emit (if pressed_in 0 b0 then PRESS else RELEASE)
      (button_event b0 (if pressed_in 0 b0 then PRESS else RELEASE))
      (?S\<lparr> currentStates := (currentStates ?S)[0 + length ([] :: button_data list) := pressed_in 0 b0] \<rparr>) =
      (S1, Some ?e)"
    unfolding p0 if_False
    by (subst emit_head_throws [OF _ thrower_handlers(2)])
       (simp_all add: release_thrower_value(2) S1_def)
  have "on_data ?d ?S = forEach_button (currentStates ?S) 0 BUTTONS_DATA 0 ?S"
    by (simp add: on_data_def f)
  also have "\<dots> = forEach_button (currentStates ?S) 0 ([] @ b0 # tl BUTTONS_DATA) 0 ?S"
    unfolding b0_def
    by (rule arg_cong [where f = "\<lambda>bs. forEach_button (currentStates ?S) 0 bs 0 ?S"])
       (rule registry_split(1))
  also have "\<dots> = (S1, Some ?e)"
    unfolding e1 [symmetric]
  proof (rule loop_stops)
    show "0 + length ([] :: button_data list) < length (currentStates ?S)" by (simp add: c0)
    show "\<forall>j < length ([] :: button_data list). pressed_in 0 ([] ! j) = currentStates ?S ! (0 + j)" by simp
    show "pressed_in 0 b0 \<noteq> currentStates ?S ! (0 + length ([] :: button_data list))" by (simp add: c0 p0)
    show "snd (emit (if pressed_in 0 b0 then PRESS else RELEASE)
      (button_event b0 (if pressed_in 0 b0 then PRESS else RELEASE))
      (?S\<lparr> currentStates := (currentStates ?S)[0 + length ([] :: button_data list) := pressed_in 0 b0] \<rparr>)) = Some ?e"
      unfolding e1 by simp
  qed
  finally have r1: "on_data ?d ?S = (S1, Some ?e)" .
  have a: "currentStates S1 ! 1 = True"
    using c0 by (simp add: S1_def)
  have m: "(0 :: 32 word) AND bit_mask (BUTTONS_DATA ! 1) = 0"
    by simp
  show ?thesis
    unfolding r1 fst_conv snd_conv sf using a m release_thrower_value(3) by blast
qed

text \<open>
  C10, amended. When the listener runs to its end on a report of at least 5 bytes, no
  press or release listener throwing out of it, each of the 20 stored entries equals
  the test of the decoded field against that button's bit. The right-hand side mentions
  the report only: nothing of the earlier stored states remains, so no pressed flag
  survives that the report does not assert.
\<close>

theorem stored_state_determined:
  assumes len: "5 \<le> length data"
    and st: "length (currentStates s) = length BUTTONS_DATA"
    and run: "on_data data s = (s', None)"
  shows "length (currentStates s') = 20 \<and>
         (\<forall>i < 20. currentStates s' ! i = (spec_field data AND bit_mask (BUTTONS_DATA ! i) \<noteq> 0))"
proof -
  from len run have loop: "forEach_button (currentStates s) (spec_field data) BUTTONS_DATA 0 s = (s', None)"
    by (simp add: on_data_def pressedBits_spec)
  from forEach_button_normal [OF loop] st
  have cs: "currentStates s' = map (pressed_in (spec_field data)) BUTTONS_DATA"
    by simp
  have n: "length BUTTONS_DATA = 20"
    by (simp add: BUTTONS_DATA_def)
  show ?thesis
    using n by (simp add: cs pressed_in_def)
qed

text \<open>
  A session that stores C1_RED as pressed receives a report asserting C1_BLUE only:
  afterwards C1_RED reads as released and C1_BLUE as pressed.
\<close>

theorem stored_state_determined_witness:
  "5 \<le> length [0, 0, 0x10, 0, 0 :: 8 word] \<and>
   currentStates (fst (on_data [0, 0, 1, 0, 0] Buzzer)) ! 0 = True \<and>
   snd (on_data [0, 0, 0x10, 0, 0] (fst (on_data [0, 0, 1, 0, 0] Buzzer))) = None \<and>
   currentStates (fst (on_data [0, 0, 0x10, 0, 0] (fst (on_data [0, 0, 1, 0, 0] Buzzer)))) ! 0 = False \<and>
   currentStates (fst (on_data [0, 0, 0x10, 0, 0] (fst (on_data [0, 0, 1, 0, 0] Buzzer)))) ! 1 = True"
proof -
  let ?d1 = "[0, 0, 1, 0, 0] :: 8 word list"
  let ?d2 = "[0, 0, 0x10, 0, 0] :: 8 word list"
  let ?s1 = "fst (on_data ?d1 Buzzer)"
  let ?s2 = "fst (on_data ?d2 ?s1)"
  have len1: "5 \<le> length ?d1" and len2: "5 \<le> length ?d2" by simp_all
  have st: "length (currentStates Buzzer) = length BUTTONS_DATA" by (simp add: Buzzer_def)
  have "snd (on_data ?d1 Buzzer) = None" by (rule on_data_quiet [OF quiet_Buzzer])
  then have run1: "on_data ?d1 Buzzer = (?s1, None)" by (simp add: prod_eq_iff)
  have n2: "snd (on_data ?d2 ?s1) = None"
    by (rule on_data_quiet [OF on_data_quiet_kept [OF quiet_Buzzer]])
  then have run2: "on_data ?d2 ?s1 = (?s2, None)" by (simp add: prod_eq_iff)
  have f1: "spec_field ?d1 = 1" and f2: "spec_field ?d2 = 0x10"
    by (simp_all add: spec_field_def little_endian16_def)
  have b0: "bit_mask (BUTTONS_DATA ! 0) = 1" and b1: "bit_mask (BUTTONS_DATA ! Suc 0) = 0x10"
    by (simp_all add: BUTTONS_DATA_def mk_button_def)
  note one = stored_state_determined [OF len1 st run1]
  then have st1: "length (currentStates ?s1) = length BUTTONS_DATA"
    by (simp add: BUTTONS_DATA_def)
  note two = stored_state_determined [OF len2 st1 run2]
  from one have "currentStates ?s1 ! 0 = True" by (simp add: f1 b0)
  moreover from two have "currentStates ?s2 ! 0 = False" by (simp add: f2 b0)
  moreover from two have "currentStates ?s2 ! 1 = True" by (simp add: f2 b1)
  ultimately show ?thesis using len2 n2 by blast
qed

section \<open>Sessions reached by runs\<close>

lemma wiring_updates [simp]:
  "wiring (s\<lparr> device := a \<rparr>) = wiring s"
  "wiring (s\<lparr> iface := b \<rparr>) = wiring s"
  "wiring (s\<lparr> endpoint := c \<rparr>) = wiring s"
  "wiring (s\<lparr> hidDevice := d \<rparr>) = wiring s"
  "wiring (s\<lparr> isReady := e \<rparr>) = wiring s"
  "wiring (s\<lparr> readyPromise := f \<rparr>) = wiring s"
  "wiring (s\<lparr> promises := g \<rparr>) = wiring s"
  "wiring (s\<lparr> suspended := h \<rparr>) = wiring s"
  "wiring (s\<lparr> reactions := i \<rparr>) = wiring s"
  "wiring (s\<lparr> timers := j \<rparr>) = wiring s"
  "wiring (s\<lparr> listening := k \<rparr>) = wiring s"
  "wiring (s\<lparr> emitted := l \<rparr>) = wiring s"
  "wiring (s\<lparr> delivered := m \<rparr>) = wiring s"
  "wiring (s\<lparr> hid_writes := n \<rparr>) = wiring s"
  "wiring (s\<lparr> setups := p \<rparr>) = wiring s"
  "wiring (s\<lparr> ensure_log := q \<rparr>) = wiring s"
  by (simp_all add: wiring_def)

lemma well_formed_wiring: "wiring s' = wiring s \<Longrightarrow> well_formed s' = well_formed s"
  by (simp add: wiring_def well_formed_def api_listeners_def)

lemma emit_wiring: "emit k v s = (s', r) \<Longrightarrow> wiring s' = wiring s"
  by (auto simp: emit_def wiring_def split: prod.splits)

lemma openAndClaim_try_wiring: "openAndClaim_try env s = (s', r) \<Longrightarrow> wiring s' = wiring s"
  by (auto simp: openAndClaim_try_def Let_def dest!: emit_wiring
           split: option.splits prod.splits if_splits)

lemma openAndClaim_wiring: "openAndClaim env s = (s', r) \<Longrightarrow> wiring s' = wiring s"
  by (auto simp: openAndClaim_def Let_def dest!: emit_wiring openAndClaim_try_wiring
           split: option.splits prod.splits sum.splits)

lemma ensureReady_wiring: "wiring (fst (ensureReady env s)) = wiring s"
proof -
  obtain s1 r where oc: "openAndClaim env s = (s1, r)" by (cases "openAndClaim env s")
  from openAndClaim_wiring [OF oc] show ?thesis
    by (simp add: ensureReady_def oc Let_def split: option.splits)
qed

lemma privateSetLeds_wiring: "privateSetLeds a b c d s = (s', r) \<Longrightarrow> wiring s' = wiring s"
  by (auto simp: privateSetLeds_def hid_write_def Let_def dest!: emit_wiring
           split: option.splits prod.splits)

lemma findInterruptEndpoint_wiring:
  "findInterruptEndpoint i s = (s', r) \<Longrightarrow> wiring s' = wiring s"
  by (auto simp: findInterruptEndpoint_def Let_def dest!: emit_wiring
           split: option.splits prod.splits)

lemma setupBuzzListener_try_wiring:
  "setupBuzzListener_try env result s = (s', r) \<Longrightarrow> wiring s' = wiring s"
  by (auto simp: setupBuzzListener_try_def Let_def dest!: findInterruptEndpoint_wiring
           split: option.splits prod.splits sum.splits)

lemma setupBuzzListener_resume_wiring:
  "setupBuzzListener_resume env result s = (s', r) \<Longrightarrow> wiring s' = wiring s"
  by (auto simp: setupBuzzListener_resume_def dest!: setupBuzzListener_try_wiring
           split: option.splits prod.splits)

lemma setup_resume_wiring: "wiring (setup_resume env s) = wiring s"
proof (cases "suspended s")
  case Nil
  then show ?thesis by (simp add: setup_resume_def)
next
  case (Cons x rest)
  obtain p result where x: "x = (p, result)" by (cases x)
  obtain s1 r where sb: "setupBuzzListener_resume env result (s\<lparr> suspended := rest \<rparr>) = (s1, r)"
    by (cases "setupBuzzListener_resume env result (s\<lparr> suspended := rest \<rparr>)")
  from setupBuzzListener_resume_wiring [OF sb] have w1: "wiring s1 = wiring s" by simp
  show ?thesis
  proof (cases r)
    case None
    with w1 show ?thesis
      by (simp add: setup_resume_def Cons x sb start_animation_def)
  next
    case (Some err)
    let ?c = "CustomError (if message err = [] then ''Setup failed'' else message err) (Some err)"
    obtain s2 r2 where em: "emit ERROR (JErr ?c) s1 = (s2, r2)"
      by (cases "emit ERROR (JErr ?c) s1")
    from emit_wiring [OF em] w1 have "wiring (setup_failed p err s1) = wiring s"
      by (simp add: setup_failed_def em Let_def settle_def split: option.splits)
    with Some show ?thesis
      by (simp add: setup_resume_def Cons x sb)
  qed
qed

lemma fire_timer_wiring: "wiring (fst (fire_timer s)) = wiring s"
proof (cases "timers s")
  case Nil
  then show ?thesis by (simp add: fire_timer_def)
next
  case (Cons t ts)
  show ?thesis
  proof (cases t)
    case (LedTimer b)
    obtain s1 r where p: "privateSetLeds (JBool b) (JBool b) (JBool b) (JBool b) (s\<lparr> timers := ts \<rparr>) = (s1, r)"
      by (cases "privateSetLeds (JBool b) (JBool b) (JBool b) (JBool b) (s\<lparr> timers := ts \<rparr>)")
    from privateSetLeds_wiring [OF p] show ?thesis
      by (simp add: fire_timer_def Cons LedTimer p)
  next
    case (ReadyTimer q)
    obtain s1 r where em: "emit READY JUndefined (s\<lparr> timers := ts, isReady := True \<rparr>) = (s1, r)"
      by (cases "emit READY JUndefined (s\<lparr> timers := ts, isReady := True \<rparr>)")
    from emit_wiring [OF em] show ?thesis
      by (cases r) (simp_all add: fire_timer_def Cons ReadyTimer em settle_def)
  qed
qed

lemma run_reaction_wiring: "run_reaction x s = (s', r) \<Longrightarrow> wiring s' = wiring s"
  by (cases x)
     (auto simp: invoke_def dest!: privateSetLeds_wiring emit_wiring
           split: promise_state.splits prod.splits)

lemma react_wiring: "wiring (react s) = wiring s"
proof (cases "next_settled (promises s) (reactions s)")
  case None
  then show ?thesis by (simp add: react_def)
next
  case (Some xr)
  obtain x rest where xr: "xr = (x, rest)" by (cases xr)
  obtain s1 r where rr: "run_reaction x (s\<lparr> reactions := rest \<rparr>) = (s1, r)"
    by (cases "run_reaction x (s\<lparr> reactions := rest \<rparr>)")
  from run_reaction_wiring [OF rr] show ?thesis
    by (simp add: react_def Some xr rr)
qed

lemma close_wiring: "wiring (fst (close s)) = wiring s"
  by (cases "endpoint s"; cases "iface s"; cases "device s"; cases "hidDevice s")
     (simp_all add: close_def release_callback_def Let_def split: option.splits)


lemma forEach_button_length:
  "i + length bs \<le> length (currentStates s) \<Longrightarrow>
   length (currentStates (fst (forEach_button prev field bs i s))) = length (currentStates s)"
proof (induction bs arbitrary: i s)
  case Nil
  then show ?case by simp
next
  case (Cons b bs)
  define k where "k = (if field AND bit_mask b \<noteq> 0 then PRESS else RELEASE)"
  define s1 where "s1 = s\<lparr> currentStates := array_set (currentStates s) i (field AND bit_mask b \<noteq> 0) \<rparr>"
  define e where "e = emit k (button_event b k) s1"
  have unf: "forEach_button prev field (b # bs) i s =
     (if JBool (field AND bit_mask b \<noteq> 0) = array_get prev i
      then forEach_button prev field bs (Suc i) s1
      else if snd e = None then forEach_button prev field bs (Suc i) (fst e) else e)"
    unfolding forEach_button_Cons k_def s1_def e_def Let_def by (rule refl)
  from Cons.prems have l1: "length (currentStates s1) = length (currentStates s)"
    by (simp add: s1_def array_set_def)
  have "currentStates (fst e) = currentStates s1"
    unfolding e_def by (subst emit_frame) simp
  with l1 have l2: "length (currentStates (fst e)) = length (currentStates s)"
    by simp
  from Cons.prems l1 have a: "length (currentStates (fst (forEach_button prev field bs (Suc i) s1))) =
      length (currentStates s)"
    by (subst Cons.IH) simp_all
  from Cons.prems l2 have b: "length (currentStates (fst (forEach_button prev field bs (Suc i) (fst e)))) =
      length (currentStates s)"
    by (subst Cons.IH) simp_all
  show ?case
    unfolding unf using a b l2 by simp
qed

lemma on_data_well_formed: "well_formed s \<Longrightarrow> well_formed (fst (on_data data s))"
proof -
  assume w: "well_formed s"
  from on_data_frame [of data s] obtain cs em dl where
    f: "fst (on_data data s) = s\<lparr> currentStates := cs, emitted := em, delivered := dl \<rparr>"
    by blast
  have e: "ee (fst (on_data data s)) = ee s"
    by (subst f) simp
  have "length (currentStates (fst (on_data data s))) = length (currentStates s)"
    using w forEach_button_length [of 0 BUTTONS_DATA s "currentStates s"]
    by (auto simp: on_data_def well_formed_def split: sum.splits)
  with w e show ?thesis
    by (simp add: well_formed_def api_listeners_def)
qed

lemma ee_on_well_formed: "well_formed s \<Longrightarrow> api_handler k h \<Longrightarrow> well_formed (ee_on k h s)"
  by (cases k) (auto simp: well_formed_def api_listeners_def ee_on_def)

lemma ensureReady_well_formed:
  "well_formed s \<Longrightarrow> ensureReady env s = (s1, r) \<Longrightarrow> well_formed (s1\<lparr> reactions := x \<rparr>)"
proof -
  assume w: "well_formed s" and e: "ensureReady env s = (s1, r)"
  from ensureReady_wiring [of env s] e have "wiring (s1\<lparr> reactions := x \<rparr>) = wiring s"
    by simp
  from well_formed_wiring [OF this] w show ?thesis by simp
qed

lemma step_well_formed: "well_formed s \<Longrightarrow> well_formed (step env a s)"
proof (cases a)
  case CallEnsureReady
  assume w: "well_formed s"
  from well_formed_wiring [OF ensureReady_wiring [of env s]] w CallEnsureReady show ?thesis by simp
next
  case (CallOnReady cb)
  then show "well_formed s \<Longrightarrow> ?thesis"
    by (simp add: onReady_def ee_on_well_formed)
next
  case (CallOnPress cb)
  assume w: "well_formed s"
  obtain s1 r where e: "ensureReady env s = (s1, r)" by (cases "ensureReady env s")
  from ensureReady_well_formed [OF w e] CallOnPress show ?thesis
    by (simp add: onPress_def e ee_on_well_formed)
next
  case (CallOnRelease cb)
  assume w: "well_formed s"
  obtain s1 r where e: "ensureReady env s = (s1, r)" by (cases "ensureReady env s")
  from ensureReady_well_formed [OF w e] CallOnRelease show ?thesis
    by (simp add: onRelease_def e ee_on_well_formed)
next
  case (CallOnChange cb)
  assume w: "well_formed s"
  obtain s1 r where e: "ensureReady env s = (s1, r)" by (cases "ensureReady env s")
  from ensureReady_well_formed [OF w e] CallOnChange show ?thesis
    by (simp add: onChange_def e ee_on_well_formed)
next
  case (CallOnError cb)
  assume w: "well_formed s"
  obtain s1 r where e: "ensureReady env s = (s1, r)" by (cases "ensureReady env s")
  from ensureReady_well_formed [OF w e] CallOnError show ?thesis
    by (simp add: onError_def e ee_on_well_formed)
next
  case (CallSetLeds p1 p2 p3 p4)
  assume w: "well_formed s"
  obtain s1 r where e: "ensureReady env s = (s1, r)" by (cases "ensureReady env s")
  from ensureReady_well_formed [OF w e] CallSetLeds show ?thesis
    by (simp add: setLeds_def e)
next
  case (CallSetLedsarray players)
  assume w: "well_formed s"
  obtain s1 r where e: "ensureReady env s = (s1, r)" by (cases "ensureReady env s")
  show ?thesis
  proof (cases "is_array4 players")
    case False
    from setLedsarray_bad [OF this, of env s] w CallSetLedsarray show ?thesis
      by simp
  next
    case True
    then obtain p1 p2 p3 p4 where p: "players = JArr [p1, p2, p3, p4]"
      by (auto simp: is_array4_def length_Suc_conv numeral_eq_Suc split: js_value.splits)
    from ensureReady_well_formed [OF w e] CallSetLedsarray show ?thesis
      by (simp add: p setLedsarray_def setLeds_def e)
  qed
next
  case CallClose
  assume w: "well_formed s"
  from well_formed_wiring [OF close_wiring [of s]] w CallClose show ?thesis by simp
next
  case Resume
  assume w: "well_formed s"
  from well_formed_wiring [OF setup_resume_wiring [of env s]] w Resume show ?thesis by simp
next
  case React
  assume w: "well_formed s"
  from well_formed_wiring [OF react_wiring [of s]] w React show ?thesis by simp
next
  case Timer
  assume w: "well_formed s"
  from well_formed_wiring [OF fire_timer_wiring [of s]] w Timer show ?thesis by simp
next
  case (Data data)
  then show "well_formed s \<Longrightarrow> ?thesis" by (simp add: on_data_well_formed)
qed

lemma run_well_formed: "well_formed s \<Longrightarrow> well_formed (run acts s)"
  by (induction acts arbitrary: s) (auto simp: step_well_formed)

text \<open>
  Every session that a run reaches from a fresh one, \<open>close()\<close> included, stores
  one state per button and has its listeners where the public operations register
  them: the premises on the session in the properties of the data listener hold for all
  of them.
\<close>

lemma reachable_well_formed:
  "length (currentStates (run acts Buzzer)) = length BUTTONS_DATA \<and> api_listeners (run acts Buzzer)"
proof -
  have "well_formed Buzzer"
    by (simp add: well_formed_def api_listeners_def Buzzer_def)
  from run_well_formed [OF this, of acts] show ?thesis
    by (simp add: well_formed_def)
qed

end
